theory Spec2Isabelle
  imports Complex_Main
begin

section \<open>The camera demo of the KNN image classifier (demos/camera.js)\<close>

text \<open>
  The page is modelled by explicit state passing. The module variables \<open>training\<close>,
  \<open>infoTexts\<close>, \<open>model\<close> and \<open>video\<close>, the DOM elements the script touches and a
  log of the calls made to the collaborators (tensor library, classifier, stats panel,
  host scheduler) are the fields of one record. A function that can throw returns the
  thrown value next to the state reached at the throw. The host is single-threaded: a
  tick of the render loop, a listener, and a continuation of a settled promise each run
  to the end before anything else runs, so each is one function on the state. An
  \<open>async\<close> function is a function for its call up to the first \<open>await\<close> and one function
  for each continuation; between them any other event of the page may run.
\<close>

subsection \<open>Constants of the module\<close>

definition videoWidth :: nat where
  "videoWidth = 300"

definition videoHeight :: nat where
  "videoHeight = 250"

definition NUM_CLASSES :: nat where
  "NUM_CLASSES = 3"

definition TOPK :: nat where
  "TOPK = 10"

subsection \<open>Values of the host language\<close>

datatype error =
    Error string  \<comment> \<open>\<open>new Error(message)\<close>, also a rejection reason of a library promise\<close>
  | TypeError     \<comment> \<open>a property read or a method call on \<open>undefined\<close>\<close>

text \<open>
  The state of a promise. As the fate the host gives to an awaited promise, \<open>Pending\<close> is
  the promise that never settles.
\<close>

datatype 'a settled = Fulfilled 'a | Rejected error | Pending

text \<open>\<open>xs[i]\<close> on an array: \<open>undefined\<close> (here \<open>None\<close>) out of range.\<close>

definition js_index :: "'a list \<Rightarrow> nat \<Rightarrow> 'a option" where
  "js_index xs i = (if i < length xs then Some (xs ! i) else None)"

text \<open>\<open>Math.max(...xs)\<close> is \<open>-Infinity\<close> on the empty array.\<close>

datatype extended = Minus_Infinity | Finite nat

fun Math_max :: "nat list \<Rightarrow> extended" where
  "Math_max [] = Minus_Infinity"
| "Math_max (x # xs) =
     (case Math_max xs of Minus_Infinity \<Rightarrow> Finite x | Finite m \<Rightarrow> Finite (max x m))"

fun greater_than :: "extended \<Rightarrow> nat \<Rightarrow> bool" where
  "greater_than Minus_Infinity n = False"
| "greater_than (Finite m) n = (n < m)"

text \<open>The decimal digits of a count, as string concatenation and template literals print it.\<close>

definition digit :: "nat \<Rightarrow> char" where
  "digit d = ''0123456789'' ! d"

fun string_of_nat :: "nat \<Rightarrow> string" where
  "string_of_nat n =
     (if n < 10 then [digit n] else string_of_nat (n div 10) @ [digit (n mod 10)])"

declare string_of_nat.simps [simp del]

text \<open>
  Confidences are floating-point numbers of the host, each with an exact rational
  value. The host's product of two of them is the number nearest to the exact product,
  so what a template literal prints for \<open>res.confidences[i] * 100\<close> is a function of the
  exact product: the rounding and the conversion to text. That function is the host's
  and stays a parameter \<open>fmt\<close> of the functions that print; the product itself is
  computed here. \<open>undefined * 100\<close> is \<open>NaN\<close>, which prints as \<open>NaN\<close>.
\<close>

type_synonym number_text = "rat \<Rightarrow> string"

text \<open>
  On whole numbers from 0 on, as far as counts and percentages go, the rounding is exact
  and the host prints the decimal digits; \<open>whole_text\<close> is meant for these only.
\<close>

definition whole_text :: number_text where
  "whole_text q = string_of_nat (nat \<lfloor>q\<rfloor>)"

subsection \<open>The classifier\<close>

text \<open>
  Modelled from the spec: the classifier library (its \<open>load\<close>, \<open>addImage\<close>,
  \<open>getClassExampleCount\<close> and \<open>predictClass\<close>) is not among the sources. Of a
  classifier the page only ever sees the per-class example counts, and of a prediction
  the predicted class index and the per-class confidences.
\<close>

record classifier =
  numClasses :: nat
  kValue :: nat
  classExampleCount :: "nat list"

record prediction =
  classIndex :: int
  confidences :: "rat list"

text \<open>
  Modelled from the spec: \<open>load(numClasses, k)\<close> of the classifier library. A freshly
  loaded classifier has one example count per class, all zero.
\<close>

definition knn_load :: "nat \<Rightarrow> nat \<Rightarrow> classifier" where
  "knn_load n k = \<lparr>numClasses = n, kValue = k, classExampleCount = replicate n 0\<rparr>"

text \<open>
  Modelled from the spec: \<open>train(frame, classIndex)\<close> of the classifier library, which
  "increases that class's example count by one". The spec names no effect for an index
  that is no class; the counts are left as they are there.
\<close>

definition addImage :: "classifier \<Rightarrow> int \<Rightarrow> classifier" where
  "addImage m k =
     (if 0 \<le> k \<and> nat k < length (classExampleCount m)
      then m\<lparr>classExampleCount :=
               (classExampleCount m)[nat k := classExampleCount m ! nat k + 1]\<rparr>
      else m)"

text \<open>
  Modelled from the spec: \<open>exampleCounts()\<close> of the classifier library, the "current
  per-class counts", taken as a value read at the call.
\<close>

definition getClassExampleCount :: "classifier \<Rightarrow> nat list" where
  "getClassExampleCount m = classExampleCount m"

text \<open>
  Modelled from the spec: the failure condition of \<open>predict\<close> of the classifier library,
  which "fails only if invoked with zero total stored examples".
\<close>

definition predictClass_fails :: "classifier \<Rightarrow> bool" where
  "predictClass_fails m = (sum_list (classExampleCount m) = 0)"

subsection \<open>The page\<close>

record span =
  innerText :: string
  fontWeight :: string

text \<open>The two listeners of the source are closures that assign \<open>training\<close>.\<close>

datatype listener = Assign_training int

record button =
  button_innerText :: string
  mousedown :: "listener list"
  mouseup :: "listener list"

record video_element =
  width :: nat
  height :: nat
  srcObject :: bool
  playing :: bool

datatype call =
    Knn_load nat nat
  | Stats_showPanel nat
  | Stats_begin
  | Stats_end
  | GetUserMedia "nat option" "nat option"
  | FromPixels nat
  | AddImage nat int
  | GetClassExampleCount
  | PredictClass nat
  | Dispose nat
  | RequestAnimationFrame

text \<open>
  An in-flight \<open>predictClass\<close> promise with the two variables its continuations close
  over: the tensor \<open>image\<close> and the counts \<open>exampleCount\<close> read in the same tick.
\<close>

record in_flight =
  image :: nat
  exampleCount :: "nat list"

text \<open>The three places at which \<open>bindPage\<close> waits for the host.\<close>

datatype await = Await_loadKNN | Await_getUserMedia | Await_loadedmetadata

text \<open>
  \<open>video\<close> tells whether the module variable refers to the \<open>#video\<close> element; the element
  itself is \<open>video_dom\<close>. The spans are shared between the document and \<open>infoTexts\<close>:
  \<open>infoTexts\<close> holds them, and \<open>buttons\<close> holds the button of each \<open>div\<close> in document
  order. Tensors are named by their creation number; \<open>tensors\<close> counts those created.
  \<open>frame_requests\<close> counts the callbacks handed to \<open>requestAnimationFrame\<close> that have
  not run yet. \<open>uncaught\<close> collects what reaches the host's default error reporting.
  \<open>bindPage_at\<close> is the \<open>await\<close> at which the call of \<open>bindPage\<close> is suspended, if it is,
  and \<open>bindPage_result\<close> the state of the promise that call returned.
\<close>

record page =
  training :: int
  infoTexts :: "span list"
  model :: "classifier option"
  video :: bool
  video_dom :: video_element
  buttons :: "button list"
  stats_dom :: bool
  loading_display :: string
  main_display :: string
  info_display :: string
  info_textContent :: string
  calls :: "call list"
  tensors :: nat
  in_flights :: "in_flight list"
  frame_requests :: nat
  uncaught :: "error list"
  bindPage_at :: "await option"
  bindPage_result :: "unit settled"

text \<open>
  The state when the module has been evaluated and before \<open>bindPage\<close> runs:
  \<open>infoTexts = []\<close>, \<open>training = -1\<close>, \<open>model\<close> and \<open>video\<close> undefined. The document
  is not among the sources; no inline style is taken to be set.
\<close>

definition initial_page :: page where
  "initial_page =
     \<lparr>training = - 1, infoTexts = [], model = None, video = False,
      video_dom = \<lparr>width = 0, height = 0, srcObject = False, playing = False\<rparr>,
      buttons = [], stats_dom = False,
      loading_display = [], main_display = [], info_display = [], info_textContent = [],
      calls = [], tensors = 0, in_flights = [], frame_requests = 0, uncaught = [],
      bindPage_at = None, bindPage_result = Pending\<rparr>"

text \<open>What the host decides: capabilities, the user agent, and how its promises settle.\<close>

record host =
  userAgent_test :: "string \<Rightarrow> bool"
  mediaDevices :: bool
  getUserMedia :: bool
  getUserMedia_result :: "unit settled"
  loadedmetadata :: bool
  knn_load_result :: "unit settled"

definition call :: "call \<Rightarrow> page \<Rightarrow> page" where
  "call c s = s\<lparr>calls := calls s @ [c]\<rparr>"

subsection \<open>Device tests\<close>

definition isAndroid :: "host \<Rightarrow> bool" where
  "isAndroid h = userAgent_test h ''Android''"

definition isiOS :: "host \<Rightarrow> bool" where
  "isiOS h = userAgent_test h ''iPhone|iPad|iPod''"

definition isMobile :: "host \<Rightarrow> bool" where
  "isMobile h = (isAndroid h \<or> isiOS h)"

subsection \<open>setupCamera\<close>

definition unavailable :: error where
  "unavailable = Error ''Browser API navigator.mediaDevices.getUserMedia not available''"

text \<open>
  The call of \<open>setupCamera\<close> up to \<open>await navigator.mediaDevices.getUserMedia(...)\<close>: it
  either throws, which rejects the promise it returns, or is left waiting for the
  stream.
\<close>

definition setupCamera :: "host \<Rightarrow> page \<Rightarrow> unit settled \<times> page" where
  "setupCamera h s =
     (if \<not> mediaDevices h \<or> \<not> getUserMedia h then (Rejected unavailable, s)
      else
        let s1 = s\<lparr>video_dom := (video_dom s)\<lparr>width := videoWidth, height := videoHeight\<rparr>\<rparr>;
            mobile = isMobile h;
            s2 = call (GetUserMedia (if mobile then None else Some videoWidth)
                                    (if mobile then None else Some videoHeight)) s1
        in (Pending, s2))"

text \<open>
  Its continuation once the stream is there: \<open>video.srcObject = stream\<close>, and the promise
  it returns waits for \<open>onloadedmetadata\<close>.
\<close>

definition setupCamera_stream :: "page \<Rightarrow> page" where
  "setupCamera_stream s = s\<lparr>video_dom := (video_dom s)\<lparr>srcObject := True\<rparr>\<rparr>"

subsection \<open>setupGui\<close>

text \<open>
  The two elements one round of the loop creates: the button labelled \<open>'Train ' + i\<close>
  with its two listeners, and the span with its first text.
\<close>

definition train_button :: "nat \<Rightarrow> button" where
  "train_button i = \<lparr>button_innerText = ''Train '' @ string_of_nat i,
      mousedown = [Assign_training (int i)], mouseup = [Assign_training (- 1)]\<rparr>"

definition no_examples_added :: span where
  "no_examples_added = \<lparr>innerText = '' No examples added'', fontWeight = []\<rparr>"

definition setupGui_body :: "nat \<Rightarrow> page \<Rightarrow> page" where
  "setupGui_body i s =
     (let button = train_button i;
          infoText = no_examples_added
      in s\<lparr>buttons := buttons s @ [button], infoTexts := infoTexts s @ [infoText]\<rparr>)"

function setupGui_loop :: "nat \<Rightarrow> page \<Rightarrow> page" where
  "setupGui_loop i s =
     (if i < NUM_CLASSES then setupGui_loop (i + 1) (setupGui_body i s) else s)"
  by pat_completeness auto
termination
  by (relation "measure (\<lambda>(i, s). NUM_CLASSES - i)") auto

declare setupGui_loop.simps [simp del]

definition setupGui :: "page \<Rightarrow> page" where
  "setupGui s = setupGui_loop 0 s"

subsection \<open>loadKNN and setupFPS\<close>

text \<open>
  The call of \<open>loadKNN\<close> up to \<open>await knn.load(NUM_CLASSES, TOPK)\<close>; its continuation only
  hands the classifier on to \<open>bindPage\<close>.
\<close>

definition loadKNN :: "page \<Rightarrow> page" where
  "loadKNN s = call (Knn_load NUM_CLASSES TOPK) s"

definition setupFPS :: "page \<Rightarrow> page" where
  "setupFPS s = (call (Stats_showPanel 0) s)\<lparr>stats_dom := True\<rparr>"

subsection \<open>animate\<close>

text \<open>
  \<open>tf.fromPixels(video)\<close> makes a new tensor. It is the tensor library's; with \<open>video\<close>
  still undefined it has no pixels to read and throws an \<open>Error\<close> (the message here is
  the one of the library's WebGL backend).
\<close>

definition pixels_null :: error where
  "pixels_null = Error ''MathBackendWebGL.writePixels(): pixels can not be null''"

definition tf_fromPixels :: "page \<Rightarrow> (error + nat) \<times> page" where
  "tf_fromPixels s =
     (if video s
      then (Inr (tensors s), call (FromPixels (tensors s)) (s\<lparr>tensors := tensors s + 1\<rparr>))
      else (Inl pixels_null, s))"

definition model_addImage :: "nat \<Rightarrow> int \<Rightarrow> page \<Rightarrow> (error + unit) \<times> page" where
  "model_addImage img k s =
     (case model s of
        None \<Rightarrow> (Inl TypeError, s)
      | Some m \<Rightarrow> (Inr (), call (AddImage img k) (s\<lparr>model := Some (addImage m k)\<rparr>)))"

definition model_getClassExampleCount :: "page \<Rightarrow> (error + nat list) \<times> page" where
  "model_getClassExampleCount s =
     (case model s of
        None \<Rightarrow> (Inl TypeError, s)
      | Some m \<Rightarrow> (Inr (getClassExampleCount m), call GetClassExampleCount s))"

text \<open>
  \<open>model.predictClass(image).then(...).then(...)\<close>: the call returns a promise at once
  and the two continuations wait for it; nothing of them runs in the tick. The promise
  is kept in \<open>in_flights\<close> until the host settles it.
\<close>

definition model_predictClass :: "nat \<Rightarrow> nat list \<Rightarrow> page \<Rightarrow> (error + unit) \<times> page" where
  "model_predictClass img cnt s =
     (case model s of
        None \<Rightarrow> (Inl TypeError, s)
      | Some m \<Rightarrow>
          (Inr (), call (PredictClass img)
                     (s\<lparr>in_flights := in_flights s @ [\<lparr>image = img, exampleCount = cnt\<rparr>]\<rparr>)))"

definition dispose :: "nat \<Rightarrow> page \<Rightarrow> page" where
  "dispose img s = call (Dispose img) s"

definition requestAnimationFrame :: "page \<Rightarrow> page" where
  "requestAnimationFrame s =
     call RequestAnimationFrame (s\<lparr>frame_requests := frame_requests s + 1\<rparr>)"

definition animate :: "page \<Rightarrow> (error + unit) \<times> page" where
  "animate s0 =
     (let s1 = call Stats_begin s0 in
      case tf_fromPixels s1 of
        (Inl e, s2) \<Rightarrow> (Inl e, s2)
      | (Inr img, s2) \<Rightarrow>
     (case (if training s2 \<noteq> - 1 then model_addImage img (training s2) s2 else (Inr (), s2)) of
        (Inl e, s3) \<Rightarrow> (Inl e, s3)
      | (Inr u, s3) \<Rightarrow>
     (case model_getClassExampleCount s3 of
        (Inl e, s4) \<Rightarrow> (Inl e, s4)
      | (Inr cnt, s4) \<Rightarrow>
     (case (if greater_than (Math_max cnt) 0 then model_predictClass img cnt s4
            else (Inr (), dispose img s4)) of
        (Inl e, s5) \<Rightarrow> (Inl e, s5)
      | (Inr u, s5) \<Rightarrow> (Inr (), requestAnimationFrame (call Stats_end s5))))))"

subsection \<open>The continuations of a prediction\<close>

text \<open>
  The first continuation, \<open>(res) => { for (let i = 0; i < NUM_CLASSES; i++) ... }\<close>.
  \<open>infoTexts[i].style\<close> throws when \<open>infoTexts[i]\<close> is undefined; by then the earlier
  spans have been written. \<open>exampleCount[i] > 0\<close> is false for an undefined count.
\<close>

definition show_class :: "number_text \<Rightarrow> prediction \<Rightarrow> nat list \<Rightarrow> nat \<Rightarrow> span \<Rightarrow> span" where
  "show_class fmt res cnt i t =
     (let t1 = t\<lparr>fontWeight := (if classIndex res = int i then ''bold'' else ''normal'')\<rparr>
      in case js_index cnt i of
           None \<Rightarrow> t1
         | Some c \<Rightarrow>
             if 0 < c
             then let conf = (case js_index (confidences res) i of
                                None \<Rightarrow> ''NaN''
                              | Some x \<Rightarrow> fmt (x * 100))
                  in t1\<lparr>innerText :=
                         '' '' @ string_of_nat c @ '' examples - '' @ conf @ ''%''\<rparr>
             else t1)"

function show_prediction ::
  "number_text \<Rightarrow> prediction \<Rightarrow> nat list \<Rightarrow> nat \<Rightarrow> span list \<Rightarrow> (error + unit) \<times> span list"
where
  "show_prediction fmt res cnt i texts =
     (if i < NUM_CLASSES
      then (case js_index texts i of
              None \<Rightarrow> (Inl TypeError, texts)
            | Some t \<Rightarrow>
                show_prediction fmt res cnt (i + 1) (texts[i := show_class fmt res cnt i t]))
      else (Inr (), texts))"
  by pat_completeness auto
termination
  by (relation "measure (\<lambda>(fmt, res, cnt, i, texts). NUM_CLASSES - i)") auto

declare show_prediction.simps [simp del]

text \<open>
  The chain \<open>predictClass(image).then(first).then(second)\<close> once the promise has
  settled. A rejection skips both continuations, and so does a throw of the first one
  skip the second; nothing catches either, so it reaches the host.
\<close>

definition predictClass_then ::
  "number_text \<Rightarrow> in_flight \<Rightarrow> error + prediction \<Rightarrow> page \<Rightarrow> page" where
  "predictClass_then fmt p outcome s =
     (case outcome of
        Inl e \<Rightarrow> s\<lparr>uncaught := uncaught s @ [e]\<rparr>
      | Inr res \<Rightarrow>
          (case show_prediction fmt res (exampleCount p) 0 (infoTexts s) of
             (Inl e, texts) \<Rightarrow> s\<lparr>infoTexts := texts, uncaught := uncaught s @ [e]\<rparr>
           | (Inr u, texts) \<Rightarrow> dispose (image p) (s\<lparr>infoTexts := texts\<rparr>)))"

subsection \<open>bindPage\<close>

definition fallback_message :: string where
  "fallback_message =
     ''this browser does not support video capture,'' @
     ''or this device does not have a camera''"

text \<open>
  \<open>bindPage\<close> is an \<open>async\<close> function with two \<open>await\<close>s, and the \<open>setupCamera\<close> it awaits
  waits twice itself. The call runs up to \<open>await loadKNN()\<close>.
\<close>

definition bindPage :: "page \<Rightarrow> page" where
  "bindPage s = (loadKNN s)\<lparr>bindPage_at := Some Await_loadKNN, bindPage_result := Pending\<rparr>"

text \<open>
  A throw that leaves \<open>bindPage\<close> rejects its promise. The module calls \<open>bindPage()\<close> and
  drops the promise, so the rejection is unhandled and reaches the host.
\<close>

definition bindPage_throw :: "error \<Rightarrow> page \<Rightarrow> page" where
  "bindPage_throw e s =
     s\<lparr>bindPage_at := None, bindPage_result := Rejected e, uncaught := uncaught s @ [e]\<rparr>"

text \<open>The \<open>catch\<close> block around the camera setup.\<close>

definition bindPage_catch :: "error \<Rightarrow> page \<Rightarrow> page" where
  "bindPage_catch e s =
     bindPage_throw e (s\<lparr>info_textContent := fallback_message, info_display := ''block''\<rparr>)"

text \<open>
  The continuation after \<open>video = await setupCamera()\<close>: \<open>video.play()\<close> inside the \<open>try\<close>,
  then the first \<open>animate()\<close> outside it.
\<close>

definition bindPage_camera :: "page \<Rightarrow> page" where
  "bindPage_camera s4 =
     (let s5 = s4\<lparr>video := True, video_dom := (video_dom s4)\<lparr>playing := True\<rparr>\<rparr>
      in (case animate s5 of
            (Inl e, s6) \<Rightarrow> bindPage_throw e s6
          | (Inr u, s6) \<Rightarrow> s6\<lparr>bindPage_at := None, bindPage_result := Fulfilled ()\<rparr>))"

text \<open>
  The continuation after \<open>model = await loadKNN()\<close>, up to \<open>await setupCamera()\<close>. A throw
  of \<open>setupCamera\<close> rejects the awaited promise and is caught before any other event
  of the page can run. (\<open>setupCamera\<close> never returns a promise that is fulfilled already;
  \<open>bindPage\<close> would go straight on with it.)
\<close>

definition bindPage_model :: "host \<Rightarrow> classifier \<Rightarrow> page \<Rightarrow> page" where
  "bindPage_model h m s1 =
     (let s2 = s1\<lparr>model := Some m, loading_display := ''none'', main_display := ''block''\<rparr>;
          s3 = setupFPS (setupGui s2)
      in (case setupCamera h s3 of
            (Fulfilled u, s4) \<Rightarrow> bindPage_camera s4
          | (Rejected e, s4) \<Rightarrow> bindPage_catch e s4
          | (Pending, s4) \<Rightarrow> s4\<lparr>bindPage_at := Some Await_getUserMedia\<rparr>))"

text \<open>
  The host settles the promise that \<open>bindPage\<close> is waiting for, and \<open>bindPage\<close> goes on to
  its next \<open>await\<close> or to its end. A promise that the host never settles, and a page on
  which \<open>bindPage\<close> is not waiting, stay as they are.
\<close>

definition resume :: "host \<Rightarrow> page \<Rightarrow> page" where
  "resume h s =
     (case bindPage_at s of
        None \<Rightarrow> s
      | Some Await_loadKNN \<Rightarrow>
          (case knn_load_result h of
             Fulfilled u \<Rightarrow> bindPage_model h (knn_load NUM_CLASSES TOPK) s
           | Rejected e \<Rightarrow> bindPage_throw e s
           | Pending \<Rightarrow> s)
      | Some Await_getUserMedia \<Rightarrow>
          (case getUserMedia_result h of
             Fulfilled stream \<Rightarrow> (setupCamera_stream s)\<lparr>bindPage_at := Some Await_loadedmetadata\<rparr>
           | Rejected e \<Rightarrow> bindPage_catch e s
           | Pending \<Rightarrow> s)
      | Some Await_loadedmetadata \<Rightarrow>
          (if loadedmetadata h then bindPage_camera s else s))"

subsection \<open>The events of the page\<close>

fun listen :: "listener \<Rightarrow> page \<Rightarrow> page" where
  "listen (Assign_training v) s = s\<lparr>training := v\<rparr>"

definition dispatch :: "listener list \<Rightarrow> page \<Rightarrow> page" where
  "dispatch ls s = fold listen ls s"

text \<open>
  What can happen on the page once the module has called \<open>bindPage\<close>: a press or a
  release on the button of a \<open>div\<close>, the host running a requested animation frame, one of
  the in-flight predictions settling, and the host settling the promise \<open>bindPage\<close> waits
  for. An event on a button that does not exist, a frame nobody requested and a
  settlement of no promise do nothing.
\<close>

datatype event =
    Mousedown nat
  | Mouseup nat
  | Animation_frame
  | Settled nat "error + prediction"
  | Resume

fun step :: "number_text \<Rightarrow> host \<Rightarrow> event \<Rightarrow> page \<Rightarrow> page" where
  "step fmt h (Mousedown b) s =
     (case js_index (buttons s) b of None \<Rightarrow> s | Some btn \<Rightarrow> dispatch (mousedown btn) s)"
| "step fmt h (Mouseup b) s =
     (case js_index (buttons s) b of None \<Rightarrow> s | Some btn \<Rightarrow> dispatch (mouseup btn) s)"
| "step fmt h Animation_frame s =
     (if 0 < frame_requests s
      then (case animate (s\<lparr>frame_requests := frame_requests s - 1\<rparr>) of
              (Inl e, s') \<Rightarrow> s'\<lparr>uncaught := uncaught s' @ [e]\<rparr>
            | (Inr u, s') \<Rightarrow> s')
      else s)"
| "step fmt h (Settled j outcome) s =
     (case js_index (in_flights s) j of
        None \<Rightarrow> s
      | Some p \<Rightarrow>
          predictClass_then fmt p outcome
            (s\<lparr>in_flights := take j (in_flights s) @ drop (j + 1) (in_flights s)\<rparr>))"
| "step fmt h Resume s = resume h s"

definition run :: "number_text \<Rightarrow> host \<Rightarrow> event list \<Rightarrow> page \<Rightarrow> page" where
  "run fmt h evs s = fold (step fmt h) evs s"

text \<open>The calls a piece of code added to the log of \<open>s\<close> on its way to \<open>s'\<close>.\<close>

definition new_calls :: "page \<Rightarrow> page \<Rightarrow> call list" where
  "new_calls s s' = drop (length (calls s)) (calls s')"

text \<open>The classifier as a tick leaves it: after the train step when a class is armed.\<close>

definition trained :: "page \<Rightarrow> classifier \<Rightarrow> classifier" where
  "trained s m = (if training s \<noteq> - 1 then addImage m (training s) else m)"

fun is_AddImage :: "call \<Rightarrow> bool" where
  "is_AddImage (AddImage img k) = True"
| "is_AddImage c = False"

text \<open>
  The page a sequence of events leads to on a host, from the module's call of
  \<open>bindPage\<close> on.
\<close>

definition reached :: "number_text \<Rightarrow> host \<Rightarrow> event list \<Rightarrow> page" where
  "reached fmt h evs = run fmt h evs (bindPage initial_page)"

text \<open>
  What every page reached from the start satisfies: each button is one of those that
  \<open>setupGui\<close> creates, the armed class is \<open>-1\<close> or a class index, and every \<open>addImage\<close>
  call made so far had a class index.
\<close>

definition page_ok :: "page \<Rightarrow> bool" where
  "page_ok s \<longleftrightarrow>
     (\<forall>btn\<in>set (buttons s). \<exists>i<NUM_CLASSES. btn = train_button i) \<and>
     (training s = - 1 \<or> (0 \<le> training s \<and> training s < int NUM_CLASSES)) \<and>
     (\<forall>img k. AddImage img k \<in> set (calls s) \<longrightarrow> 0 \<le> k \<and> k < int NUM_CLASSES)"

text \<open>
  The status texts and the buttons exist exactly when the classifier has been loaded:
  the continuation of \<open>bindPage\<close> that stores the classifier is the one that runs
  \<open>setupGui\<close>, and it runs once. No prediction is in flight before that.
\<close>

definition gui_ok :: "page \<Rightarrow> bool" where
  "gui_ok s \<longleftrightarrow>
     (if model s = None
      then infoTexts s = [] \<and> buttons s = [] \<and> in_flights s = []
      else length (infoTexts s) = NUM_CLASSES \<and>
           buttons s = map train_button [0..<NUM_CLASSES] \<and>
           bindPage_at s \<noteq> Some Await_loadKNN)"

text \<open>
  The render loop is running: the camera and the classifier are set up and the status
  texts exist. The page is idle: no animation frame is requested and no prediction is
  in flight.
\<close>

definition running :: "page \<Rightarrow> bool" where
  "running s \<longleftrightarrow>
     video s \<and> NUM_CLASSES \<le> length (infoTexts s) \<and>
     (\<exists>m. model s = Some m \<and> length (getClassExampleCount m) = NUM_CLASSES)"

definition idle :: "page \<Rightarrow> bool" where
  "idle s \<longleftrightarrow> frame_requests s = 0 \<and> in_flights s = []"

text \<open>
  While \<open>bindPage\<close> waits for the camera, the classifier and the status texts are there,
  so that its last continuation starts the loop on a page where the loop is running.
\<close>

definition sound :: "page \<Rightarrow> bool" where
  "sound s \<longleftrightarrow>
     (running s \<or> idle s) \<and>
     (bindPage_at s = Some Await_getUserMedia \<or> bindPage_at s = Some Await_loadedmetadata \<longrightarrow>
        NUM_CLASSES \<le> length (infoTexts s) \<and>
        (\<exists>m. model s = Some m \<and> length (getClassExampleCount m) = NUM_CLASSES))"

text \<open>
  How often tensor \<open>f\<close> has been released, and how many in-flight predictions still hold
  it. An event is a rejection when it settles a prediction with a failure;
  \<open>rejected_frame\<close> is the tensor whose prediction the event rejects.
\<close>

definition released :: "page \<Rightarrow> nat \<Rightarrow> nat" where
  "released s f = count_list (calls s) (Dispose f)"

definition awaited :: "page \<Rightarrow> nat \<Rightarrow> nat" where
  "awaited s f = count_list (map image (in_flights s)) f"

fun is_rejection :: "event \<Rightarrow> bool" where
  "is_rejection (Settled j (Inl e)) = True"
| "is_rejection ev = False"

fun rejected_frame :: "event \<Rightarrow> page \<Rightarrow> nat option" where
  "rejected_frame (Settled j (Inl e)) s = map_option image (js_index (in_flights s) j)"
| "rejected_frame ev s = None"

subsection \<open>Concrete pages\<close>

text \<open>A desktop host on which everything is available and every promise is fulfilled.\<close>

definition desktop :: host where
  "desktop = \<lparr>userAgent_test = (\<lambda>pattern. False), mediaDevices = True, getUserMedia = True,
      getUserMedia_result = Fulfilled (), loadedmetadata = True,
      knn_load_result = Fulfilled ()\<rparr>"

text \<open>A host without the media-capture interface.\<close>

definition no_camera :: host where
  "no_camera = \<lparr>userAgent_test = (\<lambda>pattern. False), mediaDevices = False, getUserMedia = False,
      getUserMedia_result = Pending, loadedmetadata = False,
      knn_load_result = Fulfilled ()\<rparr>"

text \<open>
  The page on the desktop host once \<open>bindPage\<close> has gone through its three waits with
  nothing else happening, and then with button 0 held.
\<close>

definition started :: page where
  "started = reached whole_text desktop [Resume, Resume, Resume]"

definition armed :: page where
  "armed = step whole_text desktop (Mousedown 0) started"

text \<open>
  The page one tick later: the tick has trained class 0 with frame 1 and started a
  prediction on it. \<open>certain_0\<close> and \<open>certain_1\<close> are predictions of class 0 and of class 1
  with confidence 1.
\<close>

definition predicting :: page where
  "predicting = step whole_text desktop Animation_frame armed"

definition certain_0 :: prediction where
  "certain_0 = \<lparr>classIndex = 0, confidences = [1, 0, 0]\<rparr>"



definition started_armed :: page where
  "started_armed = reached whole_text desktop [Resume, Resume, Mousedown 0, Resume]"


section \<open>Properties of a tick\<close>

lemma greater_than_Math_max: "greater_than (Math_max cnt) 0 \<longleftrightarrow> (\<exists>c\<in>set cnt. 0 < c)"
  by (induction cnt) (auto split: extended.splits)

lemmas animate_defs = animate_def tf_fromPixels_def model_addImage_def
  model_getClassExampleCount_def model_predictClass_def dispose_def
  requestAnimationFrame_def call_def getClassExampleCount_def

lemma animate_returns:
  assumes "video s" "model s = Some m"
  shows "fst (animate s) = Inr ()"
  using assms by (cases "training s = - 1") (simp_all add: animate_defs Let_def)

lemma animate_calls:
  assumes "video s" "model s = Some m"
  shows "new_calls s (snd (animate s)) =
     [Stats_begin, FromPixels (tensors s)] @
     (if training s \<noteq> - 1 then [AddImage (tensors s) (training s)] else []) @
     [GetClassExampleCount] @
     (if \<exists>c\<in>set (classExampleCount (trained s m)). 0 < c
      then [PredictClass (tensors s)] else [Dispose (tensors s)]) @
     [Stats_end, RequestAnimationFrame]"
  using assms
  by (cases "training s = - 1")
     (simp_all add: animate_defs new_calls_def Let_def greater_than_Math_max trained_def)

lemma animate_model:
  assumes "video s" "model s = Some m"
  shows "model (snd (animate s)) = Some (trained s m)"
  using assms
  by (cases "training s = - 1")
     (simp_all add: animate_defs Let_def greater_than_Math_max trained_def)

lemma animate_in_flights:
  assumes "video s" "model s = Some m"
  shows "in_flights (snd (animate s)) =
     in_flights s @
     (if \<exists>c\<in>set (classExampleCount (trained s m)). 0 < c
      then [\<lparr>image = tensors s, exampleCount = classExampleCount (trained s m)\<rparr>] else [])"
  using assms
  by (cases "training s = - 1")
     (simp_all add: animate_defs Let_def greater_than_Math_max trained_def)

lemma animate_frame_requests:
  assumes "video s" "model s = Some m"
  shows "frame_requests (snd (animate s)) = frame_requests s + 1"
  using assms
  by (cases "training s = - 1")
     (simp_all add: animate_defs Let_def greater_than_Math_max trained_def)

lemma animate_tensors:
  assumes "video s" "model s = Some m"
  shows "tensors (snd (animate s)) = tensors s + 1"
  using assms
  by (cases "training s = - 1")
     (simp_all add: animate_defs Let_def greater_than_Math_max trained_def)

lemma animate_keeps:
  "training (snd (animate s)) = training s"
  "infoTexts (snd (animate s)) = infoTexts s"
  "buttons (snd (animate s)) = buttons s"
  "video (snd (animate s)) = video s"
  "uncaught (snd (animate s)) = uncaught s"
  by (simp_all add: animate_defs Let_def split: option.splits)

lemma armed_running:
  "video armed" "model armed = Some (knn_load NUM_CLASSES TOPK)"
  "training armed = 0" "tensors armed = 1"
  by code_simp+

lemma armed_counts:
  "getClassExampleCount (trained armed (knn_load NUM_CLASSES TOPK)) = [1, 0, 0]"
  by code_simp

text \<open>
  Claim C1. In a tick of the running loop, \<open>predictClass\<close> is called exactly when one of
  the counts the tick reads (those of the classifier after the tick's train step) is
  greater than 0; with all of them 0 it is not called. Whenever it is called the
  classifier holds at least one example, so the condition under which the classifier's
  \<open>predict\<close> fails does not hold at any call.
\<close>

theorem predict_only_with_examples:
  assumes "video s" "model s = Some m"
  shows "model (snd (animate s)) = Some (trained s m) \<and>
    ((\<exists>img. PredictClass img \<in> set (new_calls s (snd (animate s)))) \<longleftrightarrow>
       (\<exists>c\<in>set (getClassExampleCount (trained s m)). 0 < c)) \<and>
    ((\<exists>img. PredictClass img \<in> set (new_calls s (snd (animate s)))) \<longrightarrow>
       \<not> predictClass_fails (trained s m))"
proof -
  have "(\<exists>img. PredictClass img \<in> set (new_calls s (snd (animate s)))) \<longleftrightarrow>
       (\<exists>c\<in>set (getClassExampleCount (trained s m)). 0 < c)"
    by (simp add: animate_calls [OF assms] getClassExampleCount_def)
  moreover have "(\<exists>c\<in>set (getClassExampleCount (trained s m)). 0 < c) \<Longrightarrow>
       \<not> predictClass_fails (trained s m)"
    by (auto simp: predictClass_fails_def getClassExampleCount_def)
  ultimately show ?thesis
    using animate_model [OF assms] by blast
qed

theorem predict_only_with_examples_witness:
  "video armed \<and> model armed = Some (knn_load NUM_CLASSES TOPK) \<and>
   (\<exists>img. PredictClass img \<in> set (new_calls armed (snd (animate armed)))) \<and>
   \<not> predictClass_fails (trained armed (knn_load NUM_CLASSES TOPK))"
proof -
  have "\<exists>c\<in>set (getClassExampleCount (trained armed (knn_load NUM_CLASSES TOPK))). 0 < c"
    by (simp add: armed_counts)
  then show ?thesis
    using predict_only_with_examples [OF armed_running(1,2)] armed_running(1,2) by blast
qed

text \<open>
  Claim C3. In a tick of the running loop with a class armed (\<open>training \<noteq> -1\<close>) there is
  exactly one \<open>addImage\<close> call, with the tick's frame and the armed class; when the armed
  value is a class index, the count of that class after the tick is one greater than
  before and the other counts are as before. With nothing armed there is no \<open>addImage\<close>
  call and the counts are unchanged.
\<close>

theorem train_once_when_armed:
  assumes "video s" "model s = Some m"
  shows "\<exists>m'. model (snd (animate s)) = Some m' \<and>
    (if training s = - 1
     then filter is_AddImage (new_calls s (snd (animate s))) = [] \<and>
          getClassExampleCount m' = getClassExampleCount m
     else filter is_AddImage (new_calls s (snd (animate s))) =
            [AddImage (tensors s) (training s)] \<and>
          (0 \<le> training s \<and> nat (training s) < length (getClassExampleCount m) \<longrightarrow>
             getClassExampleCount m' ! nat (training s) =
               getClassExampleCount m ! nat (training s) + 1 \<and>
             getClassExampleCount m' =
               (getClassExampleCount m)
                 [nat (training s) := getClassExampleCount m ! nat (training s) + 1]))"
  using animate_model [OF assms] animate_calls [OF assms]
  by (simp add: trained_def getClassExampleCount_def addImage_def)

theorem train_once_when_armed_witness:
  "video armed \<and> model armed = Some (knn_load NUM_CLASSES TOPK) \<and> training armed = 0 \<and>
   getClassExampleCount (knn_load NUM_CLASSES TOPK) = [0, 0, 0] \<and>
   (\<exists>m'. model (snd (animate armed)) = Some m' \<and>
      filter is_AddImage (new_calls armed (snd (animate armed))) = [AddImage 1 0] \<and>
      getClassExampleCount m' = [1, 0, 0])"
proof -
  have before: "getClassExampleCount (knn_load NUM_CLASSES TOPK) = [0, 0, 0]"
    by code_simp
  show ?thesis
    using train_once_when_armed [OF armed_running(1,2)] armed_running
    by (auto simp add: before)
qed

text \<open>
  Claim C6. A tick of the running loop makes its calls in this order: it captures the
  frame, trains once if a class is armed, reads the example counts, then either calls
  \<open>predictClass\<close> or releases the frame, and last requests the next animation frame.
  The request is made in every case and before the tick returns, while the prediction
  the tick may have started is still in flight.
\<close>

theorem tick_order:
  assumes "video s" "model s = Some m"
  shows "fst (animate s) = Inr () \<and>
    new_calls s (snd (animate s)) =
      [Stats_begin, FromPixels (tensors s)] @
      (if training s \<noteq> - 1 then [AddImage (tensors s) (training s)] else []) @
      [GetClassExampleCount] @
      (if \<exists>c\<in>set (getClassExampleCount (trained s m)). 0 < c
       then [PredictClass (tensors s)] else [Dispose (tensors s)]) @
      [Stats_end, RequestAnimationFrame] \<and>
    frame_requests (snd (animate s)) = frame_requests s + 1 \<and>
    in_flights (snd (animate s)) =
      in_flights s @
      (if \<exists>c\<in>set (getClassExampleCount (trained s m)). 0 < c
       then [\<lparr>image = tensors s, exampleCount = getClassExampleCount (trained s m)\<rparr>]
       else [])"
  using animate_returns [OF assms] animate_calls [OF assms]
    animate_frame_requests [OF assms] animate_in_flights [OF assms]
  by (simp add: getClassExampleCount_def)

theorem tick_order_witness:
  "video armed \<and> model armed = Some (knn_load NUM_CLASSES TOPK) \<and>
   new_calls armed (snd (animate armed)) =
     [Stats_begin, FromPixels 1, AddImage 1 0, GetClassExampleCount, PredictClass 1,
      Stats_end, RequestAnimationFrame] \<and>
   in_flights (snd (animate armed)) =
     in_flights armed @ [\<lparr>image = 1, exampleCount = [1, 0, 0]\<rparr>]"
  using tick_order [OF armed_running(1,2)] armed_running
  by (simp add: armed_counts)

section \<open>Properties of the continuations\<close>

lemma show_prediction_returns:
  "NUM_CLASSES \<le> length texts \<Longrightarrow> fst (show_prediction fmt res cnt i texts) = Inr ()"
proof (induction fmt res cnt i texts rule: show_prediction.induct)
  case (1 fmt res cnt i texts)
  show ?case
  proof (cases "i < NUM_CLASSES")
    case True
    with "1.prems" have here: "js_index texts i = Some (texts ! i)"
      by (simp add: js_index_def)
    from "1.IH" [OF True here] "1.prems" show ?thesis
      by (subst show_prediction.simps) (simp add: True here)
  next
    case False
    then show ?thesis
      by (subst show_prediction.simps) simp
  qed
qed

lemma show_prediction_length:
  "length (snd (show_prediction fmt res cnt i texts)) = length texts"
proof (induction fmt res cnt i texts rule: show_prediction.induct)
  case (1 fmt res cnt i texts)
  show ?case
  proof (cases "i < NUM_CLASSES")
    case True
    show ?thesis
    proof (cases "js_index texts i")
      case None
      with True show ?thesis
        by (subst show_prediction.simps) simp
    next
      case (Some t)
      from "1.IH" [OF True Some] show ?thesis
        by (subst show_prediction.simps) (simp add: True Some)
    qed
  next
    case False
    then show ?thesis
      by (subst show_prediction.simps) simp
  qed
qed

lemma show_prediction_nth:
  "NUM_CLASSES \<le> length texts \<Longrightarrow> j < length texts \<Longrightarrow>
   snd (show_prediction fmt res cnt i texts) ! j =
     (if i \<le> j \<and> j < NUM_CLASSES then show_class fmt res cnt j (texts ! j) else texts ! j)"
proof (induction fmt res cnt i texts rule: show_prediction.induct)
  case (1 fmt res cnt i texts)
  show ?case
  proof (cases "i < NUM_CLASSES")
    case True
    with "1.prems" have here: "js_index texts i = Some (texts ! i)"
      by (simp add: js_index_def)
    from "1.IH" [OF True here] "1.prems" True show ?thesis
      by (subst show_prediction.simps) (auto simp add: here nth_list_update)
  next
    case False
    then show ?thesis
      by (subst show_prediction.simps) auto
  qed
qed

lemma predictClass_then_fulfilled:
  assumes "NUM_CLASSES \<le> length (infoTexts s)"
  shows "predictClass_then fmt p (Inr res) s =
    dispose (image p)
      (s\<lparr>infoTexts := snd (show_prediction fmt res (exampleCount p) 0 (infoTexts s))\<rparr>)"
  using show_prediction_returns [OF assms, of fmt res "exampleCount p" 0]
  by (cases "show_prediction fmt res (exampleCount p) 0 (infoTexts s)")
     (simp add: predictClass_then_def)

lemma predictClass_then_infoTexts:
  assumes "NUM_CLASSES \<le> length (infoTexts s)" "i < NUM_CLASSES"
  shows "infoTexts (predictClass_then fmt p (Inr res) s) ! i =
    show_class fmt res (exampleCount p) i (infoTexts s ! i)"
  using assms show_prediction_nth [of "infoTexts s" i fmt res "exampleCount p" 0]
  by (simp add: predictClass_then_fulfilled dispose_def call_def)

lemma predicting_texts: "length (infoTexts predicting) = NUM_CLASSES"
  by code_simp


text \<open>
  Claim C2, as the code has it. A tick of the running loop that does not call
  \<open>predictClass\<close> releases its frame exactly once before it returns and leaves nothing
  in flight. A tick that calls \<open>predictClass\<close> does not release the frame itself; it
  leaves one promise in flight for the frame, and when that promise is fulfilled, on
  any later page \<open>t\<close> that has its status texts, the continuations release the frame
  exactly once, after the display update. When the promise is rejected no continuation
  runs and the frame is not released.
\<close>

theorem frame_released_once:
  assumes "video s" "model s = Some m" "NUM_CLASSES \<le> length (infoTexts t)"
  shows "if \<exists>c\<in>set (getClassExampleCount (trained s m)). 0 < c
     then count_list (new_calls s (snd (animate s))) (Dispose (tensors s)) = 0 \<and>
          (\<exists>p. in_flights (snd (animate s)) = in_flights s @ [p] \<and> image p = tensors s \<and>
             new_calls t (predictClass_then fmt p (Inr res) t) = [Dispose (tensors s)] \<and>
             new_calls t (predictClass_then fmt p (Inl e) t) = [])
     else count_list (new_calls s (snd (animate s))) (Dispose (tensors s)) = 1 \<and>
          in_flights (snd (animate s)) = in_flights s"
proof -
  have fulfilled: "new_calls t (predictClass_then fmt p (Inr res) t) = [Dispose (image p)]"
    for p
    by (simp add: predictClass_then_fulfilled [OF assms(3)] new_calls_def dispose_def call_def)
  have rejected: "new_calls t (predictClass_then fmt p (Inl e) t) = []" for p
    by (simp add: predictClass_then_def new_calls_def)
  show ?thesis
    using animate_calls [OF assms(1,2)] animate_in_flights [OF assms(1,2)]
    by (simp add: getClassExampleCount_def fulfilled rejected)
qed

theorem frame_released_once_witness:
  "video armed \<and> model armed = Some (knn_load NUM_CLASSES TOPK) \<and>
   NUM_CLASSES \<le> length (infoTexts predicting) \<and>
   count_list (new_calls armed (snd (animate armed))) (Dispose 1) = 0 \<and>
   (\<exists>p. in_flights (snd (animate armed)) = in_flights armed @ [p] \<and> image p = 1 \<and>
      new_calls predicting (predictClass_then whole_text p (Inr certain_0) predicting) =
        [Dispose 1] \<and>
      new_calls predicting
        (predictClass_then whole_text p (Inl (Error ''context lost'')) predicting) = [])"
proof -
  have texts: "NUM_CLASSES \<le> length (infoTexts predicting)"
    by (simp add: predicting_texts)
  show ?thesis
    using frame_released_once [OF armed_running(1,2) texts,
        of whole_text certain_0 "Error ''context lost''"]
      armed_running texts
    by (simp add: armed_counts)
qed

text \<open>
  Claim C2 as stated fails on the path where the prediction fails: the tick that
  captures frame 1 starts a prediction, the promise is rejected, and with nothing left
  in flight frame 1 has not been released.
\<close>

theorem frame_not_released_counterexample:
  "FromPixels 1 \<in> set (calls (run whole_text desktop
       [Animation_frame, Settled 0 (Inl (Error ''context lost''))] armed)) \<and>
   in_flights (run whole_text desktop
       [Animation_frame, Settled 0 (Inl (Error ''context lost''))] armed) = [] \<and>
   count_list (calls (run whole_text desktop
       [Animation_frame, Settled 0 (Inl (Error ''context lost''))] armed)) (Dispose 1) \<noteq> 1"
  by code_simp




text \<open>
  Claim C5. After a fulfilled prediction whose predicted class is a class index, the
  font weights of the status texts are \<open>bold\<close> for that class and \<open>normal\<close> for every
  other class, so exactly one status text is bold.
\<close>

theorem bold_on_predicted_class:
  assumes "length (infoTexts s) = NUM_CLASSES"
    "0 \<le> classIndex res" "classIndex res < int NUM_CLASSES"
  shows "map fontWeight (infoTexts (predictClass_then fmt p (Inr res) s)) =
      map (\<lambda>i. if int i = classIndex res then ''bold'' else ''normal'') [0..<NUM_CLASSES] \<and>
    (\<exists>!i. i < NUM_CLASSES \<and>
       fontWeight (infoTexts (predictClass_then fmt p (Inr res) s) ! i) = ''bold'')"
proof -
  let ?s' = "predictClass_then fmt p (Inr res) s"
  have len: "length (infoTexts ?s') = NUM_CLASSES"
    using assms(1) by (simp add: predictClass_then_fulfilled dispose_def call_def
        show_prediction_length)
  have weight: "fontWeight (infoTexts ?s' ! i) =
      (if int i = classIndex res then ''bold'' else ''normal'')" if "i < NUM_CLASSES" for i
    using that assms(1)
    by (auto simp add: predictClass_then_infoTexts show_class_def Let_def split: option.splits)
  have "map fontWeight (infoTexts ?s') =
      map (\<lambda>i. if int i = classIndex res then ''bold'' else ''normal'') [0..<NUM_CLASSES]"
    by (rule nth_equalityI) (simp_all add: len weight)
  moreover have "\<exists>!i. i < NUM_CLASSES \<and> fontWeight (infoTexts ?s' ! i) = ''bold''"
  proof (rule ex1I [of _ "nat (classIndex res)"])
    show "nat (classIndex res) < NUM_CLASSES \<and>
        fontWeight (infoTexts ?s' ! nat (classIndex res)) = ''bold''"
      using assms(2,3) by (simp add: weight)
  next
    fix i
    assume "i < NUM_CLASSES \<and> fontWeight (infoTexts ?s' ! i) = ''bold''"
    then show "i = nat (classIndex res)"
      by (auto simp add: weight split: if_splits)
  qed
  ultimately show ?thesis ..
qed

theorem bold_on_predicted_class_witness:
  "length (infoTexts predicting) = NUM_CLASSES \<and> 0 \<le> classIndex certain_0 \<and>
   classIndex certain_0 < int NUM_CLASSES \<and>
   map fontWeight (infoTexts (predictClass_then whole_text (in_flights predicting ! 0)
       (Inr certain_0) predicting)) = [''bold'', ''normal'', ''normal'']"
proof -
  have h: "0 \<le> classIndex certain_0" "classIndex certain_0 < int NUM_CLASSES"
    by (simp_all add: certain_0_def NUM_CLASSES_def)
  have weights: "map (\<lambda>i. if int i = classIndex certain_0 then ''bold'' else ''normal'')
      [0..<NUM_CLASSES] = [''bold'', ''normal'', ''normal'']"
    by code_simp
  show ?thesis
    using bold_on_predicted_class [OF predicting_texts h, of whole_text] h
    by (simp add: weights predicting_texts)
qed

section \<open>Properties of the setup\<close>

lemma setupGui_loop_eq:
  "i \<le> NUM_CLASSES \<Longrightarrow> setupGui_loop i s =
     s\<lparr>buttons := buttons s @ map train_button [i..<NUM_CLASSES],
       infoTexts := infoTexts s @ replicate (NUM_CLASSES - i) no_examples_added\<rparr>"
proof (induction i s rule: setupGui_loop.induct)
  case (1 i s)
  show ?case
  proof (cases "i < NUM_CLASSES")
    case True
    then have more: "NUM_CLASSES - i = Suc (NUM_CLASSES - Suc i)"
      and next_le: "i + 1 \<le> NUM_CLASSES"
      by simp_all
    have "setupGui_loop i s = setupGui_loop (i + 1) (setupGui_body i s)"
      using True by (subst setupGui_loop.simps) simp
    also have "\<dots> = (setupGui_body i s)
        \<lparr>buttons := buttons (setupGui_body i s) @ map train_button [i + 1..<NUM_CLASSES],
         infoTexts := infoTexts (setupGui_body i s) @
           replicate (NUM_CLASSES - (i + 1)) no_examples_added\<rparr>"
      by (rule "1.IH" [OF True next_le])
    also have "\<dots> = s\<lparr>buttons := buttons s @ map train_button [i..<NUM_CLASSES],
         infoTexts := infoTexts s @ replicate (NUM_CLASSES - i) no_examples_added\<rparr>"
      using True
      by (simp add: setupGui_body_def upt_conv_Cons more)
    finally show ?thesis .
  next
    case False
    with "1.prems" have "i = NUM_CLASSES" by simp
    then show ?thesis
      by (subst setupGui_loop.simps) simp
  qed
qed

lemma setupGui_eq:
  "setupGui s = s\<lparr>buttons := buttons s @ map train_button [0..<NUM_CLASSES],
       infoTexts := infoTexts s @ replicate NUM_CLASSES no_examples_added\<rparr>"
  by (simp add: setupGui_def setupGui_loop_eq)

lemma animate_untouched:
  "training (snd (animate s)) = training s"
  "infoTexts (snd (animate s)) = infoTexts s"
  "buttons (snd (animate s)) = buttons s"
  "video (snd (animate s)) = video s"
  "bindPage_at (snd (animate s)) = bindPage_at s"
  "(model (snd (animate s)) = None) = (model s = None)"
  "model s = None \<Longrightarrow> in_flights (snd (animate s)) = in_flights s"
  by (simp_all add: animate_defs Let_def split: option.splits)


lemma animate_new_AddImage:
  "AddImage img k \<in> set (calls (snd (animate s))) \<Longrightarrow>
   AddImage img k \<in> set (calls s) \<or> (k = training s \<and> training s \<noteq> - 1)"
  by (auto simp add: animate_defs Let_def split: option.splits if_splits)

lemma animate_result_AddImage:
  assumes "animate s = (r, s')" "AddImage img k \<in> set (calls s')"
  shows "AddImage img k \<in> set (calls s) \<or> (k = training s \<and> training s \<noteq> - 1)"
  using assms animate_new_AddImage [of img k s] by simp




lemma dispatch_only_training:
  "\<exists>v. dispatch ls s = s\<lparr>training := v\<rparr>"
proof (induction ls arbitrary: s)
  case Nil
  have "dispatch [] s = s\<lparr>training := training s\<rparr>"
    by (simp add: dispatch_def)
  then show ?case ..
next
  case (Cons l ls)
  obtain v where l: "l = Assign_training v"
    by (cases l)
  from Cons.IH [of "s\<lparr>training := v\<rparr>"] obtain w
    where "dispatch ls (s\<lparr>training := v\<rparr>) = s\<lparr>training := v, training := w\<rparr>"
    by auto
  with l have "dispatch (l # ls) s = s\<lparr>training := w\<rparr>"
    by (simp add: dispatch_def)
  then show ?case ..
qed

section \<open>Properties of the events\<close>

lemma predictClass_then_keeps:
  "training (predictClass_then fmt p outcome s) = training s"
  "buttons (predictClass_then fmt p outcome s) = buttons s"
  "length (infoTexts (predictClass_then fmt p outcome s)) = length (infoTexts s)"
  "AddImage img k \<in> set (calls (predictClass_then fmt p outcome s)) \<longleftrightarrow>
     AddImage img k \<in> set (calls s)"
proof -
  have "training (predictClass_then fmt p outcome s) = training s \<and>
    buttons (predictClass_then fmt p outcome s) = buttons s \<and>
    length (infoTexts (predictClass_then fmt p outcome s)) = length (infoTexts s) \<and>
    (AddImage img k \<in> set (calls (predictClass_then fmt p outcome s)) \<longleftrightarrow>
       AddImage img k \<in> set (calls s))"
  proof (cases outcome)
    case (Inl e)
    then show ?thesis
      by (simp add: predictClass_then_def)
  next
    case (Inr res)
    obtain r texts where sp: "show_prediction fmt res (exampleCount p) 0 (infoTexts s) = (r, texts)"
      by (cases "show_prediction fmt res (exampleCount p) 0 (infoTexts s)")
    with show_prediction_length [of fmt res "exampleCount p" 0 "infoTexts s"]
    have "length texts = length (infoTexts s)"
      by simp
    with Inr sp show ?thesis
      by (cases r) (simp_all add: predictClass_then_def dispose_def call_def)
  qed
  then show "training (predictClass_then fmt p outcome s) = training s"
    "buttons (predictClass_then fmt p outcome s) = buttons s"
    "length (infoTexts (predictClass_then fmt p outcome s)) = length (infoTexts s)"
    "AddImage img k \<in> set (calls (predictClass_then fmt p outcome s)) \<longleftrightarrow>
       AddImage img k \<in> set (calls s)"
    by simp_all
qed

lemma predictClass_then_untouched:
  "model (predictClass_then fmt p outcome s) = model s"
  "in_flights (predictClass_then fmt p outcome s) = in_flights s"
  "bindPage_at (predictClass_then fmt p outcome s) = bindPage_at s"
proof -
  have "model (predictClass_then fmt p outcome s) = model s \<and>
    in_flights (predictClass_then fmt p outcome s) = in_flights s \<and>
    bindPage_at (predictClass_then fmt p outcome s) = bindPage_at s"
  proof (cases outcome)
    case (Inl e)
    then show ?thesis
      by (simp add: predictClass_then_def)
  next
    case (Inr res)
    obtain r texts where "show_prediction fmt res (exampleCount p) 0 (infoTexts s) = (r, texts)"
      by (cases "show_prediction fmt res (exampleCount p) 0 (infoTexts s)")
    with Inr show ?thesis
      by (cases r) (simp_all add: predictClass_then_def dispose_def call_def)
  qed
  then show "model (predictClass_then fmt p outcome s) = model s"
    "in_flights (predictClass_then fmt p outcome s) = in_flights s"
    "bindPage_at (predictClass_then fmt p outcome s) = bindPage_at s"
    by simp_all
qed

lemma step_frame:
  "step fmt h Animation_frame s =
     (if 0 < frame_requests s
      then (let r = animate (s\<lparr>frame_requests := frame_requests s - 1\<rparr>)
            in case fst r of Inl e \<Rightarrow> (snd r)\<lparr>uncaught := uncaught (snd r) @ [e]\<rparr>
               | Inr u \<Rightarrow> snd r)
      else s)"
  by (simp add: Let_def split: prod.splits sum.splits)

lemma run_Cons: "run fmt h (ev # evs) s = run fmt h evs (step fmt h ev s)"
  by (simp add: run_def)

lemma run_append: "run fmt h (evs @ evs') s = run fmt h evs' (run fmt h evs s)"
  by (simp add: run_def)

lemma press_train_button:
  "training (dispatch (mousedown (train_button i)) s) = int i"
  "training (dispatch (mouseup (train_button i)) s) = - 1"
  by (simp_all add: dispatch_def train_button_def)


text \<open>The status texts and buttons of \<open>gui_ok\<close> are kept by every event.\<close>

lemma setupCamera_cases:
  "setupCamera h s = (Rejected unavailable, s) \<or>
   (\<exists>s'. setupCamera h s = (Pending, s') \<and> model s' = model s \<and> infoTexts s' = infoTexts s \<and>
      buttons s' = buttons s \<and> in_flights s' = in_flights s \<and> bindPage_at s' = bindPage_at s \<and>
      training s' = training s \<and> frame_requests s' = frame_requests s \<and>
      tensors s' = tensors s \<and> video s' = video s \<and>
      (\<forall>f. count_list (calls s') (Dispose f) = count_list (calls s) (Dispose f)))"
  by (simp add: setupCamera_def Let_def call_def)

lemma gui_ok_untouched:
  "gui_ok (s\<lparr>uncaught := u\<rparr>) = gui_ok s"
  "gui_ok (s\<lparr>frame_requests := n\<rparr>) = gui_ok s"
  "gui_ok (s\<lparr>bindPage_result := r\<rparr>) = gui_ok s"
  "gui_ok (s\<lparr>video := v\<rparr>) = gui_ok s"
  "gui_ok (s\<lparr>video_dom := d\<rparr>) = gui_ok s"
  "gui_ok (s\<lparr>info_display := x\<rparr>) = gui_ok s"
  "gui_ok (s\<lparr>info_textContent := x\<rparr>) = gui_ok s"
  "gui_ok (s\<lparr>training := k\<rparr>) = gui_ok s"
  by (simp_all add: gui_ok_def)

lemma gui_ok_at:
  assumes "gui_ok s" "a \<noteq> Some Await_loadKNN"
  shows "gui_ok (s\<lparr>bindPage_at := a\<rparr>)"
  using assms by (simp add: gui_ok_def)

lemma animate_gui_ok:
  assumes "gui_ok s"
  shows "gui_ok (snd (animate s))"
  using assms animate_untouched(7) [of s]
  by (auto simp add: gui_ok_def animate_untouched(2,3,5,6) split: if_splits)

lemma bindPage_throw_gui_ok:
  assumes "gui_ok s"
  shows "gui_ok (bindPage_throw e s)" "gui_ok (bindPage_catch e s)"
  using assms
  by (simp_all add: bindPage_catch_def bindPage_throw_def gui_ok_at gui_ok_untouched)

lemma bindPage_camera_gui_ok:
  assumes "gui_ok s"
  shows "gui_ok (bindPage_camera s)"
proof -
  define s5 where "s5 = s\<lparr>video := True, video_dom := (video_dom s)\<lparr>playing := True\<rparr>\<rparr>"
  have "gui_ok (snd (animate s5))"
    using assms by (intro animate_gui_ok) (simp add: s5_def gui_ok_untouched)
  then show ?thesis
    by (cases "animate s5"; cases "fst (animate s5)")
       (simp_all add: bindPage_camera_def s5_def [symmetric] bindPage_throw_gui_ok
          gui_ok_at gui_ok_untouched)
qed

lemma bindPage_model_gui_ok:
  assumes "gui_ok s" "model s = None"
  shows "gui_ok (bindPage_model h m s)"
proof -
  define s3 where "s3 = setupFPS (setupGui
      (s\<lparr>model := Some m, loading_display := ''none'', main_display := ''block''\<rparr>))"
  have s3: "model s3 = Some m" "length (infoTexts s3) = NUM_CLASSES"
    "buttons s3 = map train_button [0..<NUM_CLASSES]"
    using assms by (simp_all add: s3_def setupFPS_def call_def setupGui_eq gui_ok_def)
  have caught: "gui_ok (bindPage_catch e s3)" for e
    using s3 by (simp add: gui_ok_def bindPage_catch_def bindPage_throw_def)
  have waiting: "gui_ok (s'\<lparr>bindPage_at := Some Await_getUserMedia\<rparr>)"
    if "model s' = model s3" "infoTexts s' = infoTexts s3" "buttons s' = buttons s3" for s'
    using that s3 by (simp add: gui_ok_def)
  from setupCamera_cases [of h s3] show ?thesis
    by (auto simp add: bindPage_model_def s3_def [symmetric] caught waiting)
qed

lemma resume_gui_ok:
  assumes "gui_ok s"
  shows "gui_ok (resume h s)"
proof (cases "bindPage_at s")
  case None
  with assms show ?thesis
    by (simp add: resume_def)
next
  case (Some a)
  show ?thesis
  proof (cases a)
    case Await_loadKNN
    with Some assms have "model s = None"
      by (auto simp add: gui_ok_def split: if_splits)
    with Some Await_loadKNN assms show ?thesis
      by (simp add: resume_def bindPage_model_gui_ok bindPage_throw_gui_ok
          split: settled.splits)
  next
    case Await_getUserMedia
    with Some assms show ?thesis
      by (simp add: resume_def setupCamera_stream_def bindPage_throw_gui_ok gui_ok_at
          gui_ok_untouched split: settled.splits)
  next
    case Await_loadedmetadata
    with Some assms show ?thesis
      by (simp add: resume_def bindPage_camera_gui_ok)
  qed
qed

lemma step_gui_ok:
  assumes "gui_ok s"
  shows "gui_ok (step fmt h ev s)"
proof (cases ev)
  case (Mousedown b)
  show ?thesis
  proof (cases "js_index (buttons s) b")
    case None
    with Mousedown assms show ?thesis by simp
  next
    case (Some btn)
    obtain v where "dispatch (mousedown btn) s = s\<lparr>training := v\<rparr>"
      using dispatch_only_training by blast
    with Mousedown Some assms show ?thesis
      by (simp add: gui_ok_def)
  qed
next
  case (Mouseup b)
  show ?thesis
  proof (cases "js_index (buttons s) b")
    case None
    with Mouseup assms show ?thesis by simp
  next
    case (Some btn)
    obtain v where "dispatch (mouseup btn) s = s\<lparr>training := v\<rparr>"
      using dispatch_only_training by blast
    with Mouseup Some assms show ?thesis
      by (simp add: gui_ok_def)
  qed
next
  case Animation_frame
  have "gui_ok (snd (animate (s\<lparr>frame_requests := n\<rparr>)))" for n
    using assms by (intro animate_gui_ok) (simp add: gui_ok_untouched)
  with assms Animation_frame show ?thesis
    by (simp add: step_frame Let_def gui_ok_untouched split: sum.splits del: step.simps)
next
  case (Settled j outcome)
  show ?thesis
  proof (cases "js_index (in_flights s) j")
    case None
    with Settled assms show ?thesis by simp
  next
    case (Some p)
    then have flying: "in_flights s \<noteq> []"
      by (auto simp add: js_index_def split: if_splits)
    define t where "t = s\<lparr>in_flights := take j (in_flights s) @ drop (j + 1) (in_flights s)\<rparr>"
    have "model t \<noteq> None" "length (infoTexts t) = NUM_CLASSES"
      "buttons t = map train_button [0..<NUM_CLASSES]" "bindPage_at t \<noteq> Some Await_loadKNN"
      using assms flying by (auto simp add: gui_ok_def t_def split: if_splits)
    then have "gui_ok (predictClass_then fmt p outcome t)"
      by (auto simp add: gui_ok_def predictClass_then_keeps predictClass_then_untouched)
    with Settled Some show ?thesis
      by (simp add: t_def)
  qed
next
  case Resume
  with assms show ?thesis
    by (simp add: resume_gui_ok)
qed

lemma reached_gui_ok: "gui_ok (reached fmt h evs)"
proof -
  have "gui_ok s \<Longrightarrow> gui_ok (run fmt h evs s)" for s
  proof (induction evs arbitrary: s)
    case Nil
    then show ?case by (simp add: run_def)
  next
    case (Cons ev evs)
    then show ?case by (simp add: run_Cons step_gui_ok)
  qed
  moreover have "gui_ok (bindPage initial_page)"
    by (simp add: gui_ok_def bindPage_def loadKNN_def call_def initial_page_def)
  ultimately show ?thesis
    by (simp add: reached_def)
qed

text \<open>The armed class and the classes of the \<open>addImage\<close> calls are kept valid by every event.\<close>

lemma page_ok_untouched:
  "page_ok (s\<lparr>uncaught := u\<rparr>) = page_ok s"
  "page_ok (s\<lparr>frame_requests := n\<rparr>) = page_ok s"
  "page_ok (s\<lparr>in_flights := fs\<rparr>) = page_ok s"
  "page_ok (s\<lparr>bindPage_at := a\<rparr>) = page_ok s"
  "page_ok (s\<lparr>bindPage_result := r\<rparr>) = page_ok s"
  "page_ok (s\<lparr>video := v\<rparr>) = page_ok s"
  "page_ok (s\<lparr>video_dom := d\<rparr>) = page_ok s"
  "page_ok (s\<lparr>model := m\<rparr>) = page_ok s"
  "page_ok (s\<lparr>info_display := x\<rparr>) = page_ok s"
  "page_ok (s\<lparr>info_textContent := x\<rparr>) = page_ok s"
  "page_ok (s\<lparr>loading_display := x\<rparr>) = page_ok s"
  "page_ok (s\<lparr>main_display := x\<rparr>) = page_ok s"
  "page_ok (s\<lparr>stats_dom := y\<rparr>) = page_ok s"
  by (simp_all add: page_ok_def)

lemma animate_page_ok:
  assumes "page_ok s"
  shows "page_ok (snd (animate s))"
  using assms animate_new_AddImage [of _ _ s]
  by (simp add: page_ok_def animate_untouched) blast

lemma bindPage_camera_page_ok:
  assumes "page_ok s"
  shows "page_ok (bindPage_camera s)"
proof -
  define s5 where "s5 = s\<lparr>video := True, video_dom := (video_dom s)\<lparr>playing := True\<rparr>\<rparr>"
  have "page_ok (snd (animate s5))"
    using assms by (intro animate_page_ok) (simp add: s5_def page_ok_untouched)
  then show ?thesis
    by (cases "animate s5"; cases "fst (animate s5)")
       (simp_all add: bindPage_camera_def s5_def [symmetric] bindPage_throw_def
          page_ok_untouched)
qed

lemma setupGui_page_ok:
  assumes "page_ok s"
  shows "page_ok (setupGui s)"
  using assms by (auto simp add: page_ok_def setupGui_eq)

lemma resume_page_ok:
  assumes "page_ok s"
  shows "page_ok (resume h s)"
proof -
  have call: "page_ok (call c t)" if "page_ok t" "\<not> is_AddImage c" for c t
    using that by (cases c) (auto simp add: page_ok_def call_def)
  have catch: "page_ok (bindPage_catch e t)" if "page_ok t" for e t
    using that by (simp add: bindPage_catch_def bindPage_throw_def page_ok_untouched)
  have throw: "page_ok (bindPage_throw e t)" if "page_ok t" for e t
    using that by (simp add: bindPage_throw_def page_ok_untouched)
  have camera: "page_ok (snd (setupCamera h t))" if "page_ok t" for t
    using that by (simp add: setupCamera_def Let_def page_ok_untouched call)
  have model: "page_ok (bindPage_model h m s)" for m
  proof -
    define s3 where "s3 = setupFPS (setupGui
        (s\<lparr>model := Some m, loading_display := ''none'', main_display := ''block''\<rparr>))"
    have "page_ok s3"
      using assms
      by (simp add: s3_def setupFPS_def page_ok_untouched call setupGui_page_ok)
    from camera [OF this] show ?thesis
      by (cases "setupCamera h s3"; cases "fst (setupCamera h s3)")
         (simp_all add: bindPage_model_def s3_def [symmetric] catch bindPage_camera_page_ok
            page_ok_untouched)
  qed
  show ?thesis
    using assms
    by (simp add: resume_def model throw catch bindPage_camera_page_ok setupCamera_stream_def
        page_ok_untouched split: option.splits await.splits settled.splits)
qed

lemma step_page_ok:
  assumes "page_ok s"
  shows "page_ok (step fmt h ev s)"
proof (cases ev)
  case (Mousedown b)
  show ?thesis
  proof (cases "js_index (buttons s) b")
    case None
    with Mousedown assms show ?thesis by simp
  next
    case (Some btn)
    then have "btn \<in> set (buttons s)"
      by (auto simp add: js_index_def split: if_splits)
    with assms obtain i where "i < NUM_CLASSES" "btn = train_button i"
      by (auto simp add: page_ok_def)
    moreover obtain v where "dispatch (mousedown btn) s = s\<lparr>training := v\<rparr>"
      using dispatch_only_training by blast
    ultimately show ?thesis
      using Mousedown Some assms press_train_button(1) [of i s]
      by (auto simp add: page_ok_def)
  qed
next
  case (Mouseup b)
  show ?thesis
  proof (cases "js_index (buttons s) b")
    case None
    with Mouseup assms show ?thesis by simp
  next
    case (Some btn)
    then have "btn \<in> set (buttons s)"
      by (auto simp add: js_index_def split: if_splits)
    with assms obtain i where "i < NUM_CLASSES" "btn = train_button i"
      by (auto simp add: page_ok_def)
    moreover obtain v where "dispatch (mouseup btn) s = s\<lparr>training := v\<rparr>"
      using dispatch_only_training by blast
    ultimately show ?thesis
      using Mouseup Some assms press_train_button(2) [of i s]
      by (auto simp add: page_ok_def)
  qed
next
  case Animation_frame
  have "page_ok (snd (animate (s\<lparr>frame_requests := n\<rparr>)))" for n
    using assms by (intro animate_page_ok) (simp add: page_ok_untouched)
  with assms Animation_frame show ?thesis
    by (simp add: step_frame Let_def page_ok_untouched split: sum.splits del: step.simps)
next
  case (Settled j outcome)
  have "page_ok (predictClass_then fmt p outcome t)" if "page_ok t" for t p
    using that by (simp add: page_ok_def predictClass_then_keeps)
  with assms Settled show ?thesis
    by (simp add: page_ok_untouched split: option.splits)
next
  case Resume
  with assms show ?thesis
    by (simp add: resume_page_ok)
qed

lemma reached_page_ok: "page_ok (reached fmt h evs)"
proof -
  have "page_ok s \<Longrightarrow> page_ok (run fmt h evs s)" for s
  proof (induction evs arbitrary: s)
    case Nil
    then show ?case by (simp add: run_def)
  next
    case (Cons ev evs)
    then show ?case by (simp add: run_Cons step_page_ok)
  qed
  moreover have "page_ok (bindPage initial_page)"
    by (simp add: page_ok_def bindPage_def loadKNN_def call_def initial_page_def)
  ultimately show ?thesis
    by (simp add: reached_def)
qed

section \<open>Properties of the page\<close>

lemma step_nothing:
  assumes "buttons s = []" "frame_requests s = 0" "in_flights s = []" "ev \<noteq> Resume"
  shows "step fmt h ev s = s"
  using assms by (cases ev) (simp_all add: js_index_def)

lemma run_nothing:
  assumes "buttons s = []" "frame_requests s = 0" "in_flights s = []" "Resume \<notin> set evs"
  shows "run fmt h evs s = s"
  using assms(4)
proof (induction evs)
  case Nil
  show ?case by (simp add: run_def)
next
  case (Cons ev evs)
  then have "step fmt h ev s = s"
    using assms(1-3) by (intro step_nothing) auto
  with Cons show ?case
    by (simp add: run_Cons)
qed

text \<open>
  Claim C7. On a host without the media-capture interface \<open>setupCamera\<close> fails with the
  error that names the missing interface and changes nothing. When the classifier has
  been loaded, whatever happened on the page while it was loading, \<open>bindPage\<close> then fails
  with the same error, which nothing handles, having shown the \<open>info\<close> element with the
  fallback message; the three training buttons and their status texts made before the
  camera setup are on the page, the main container is shown, and the render loop was
  not started and no continuation of \<open>bindPage\<close> is left to start it.
\<close>

theorem camera_unavailable:
  assumes "\<not> mediaDevices h \<or> \<not> getUserMedia h" "knn_load_result h = Fulfilled ()"
    "Resume \<notin> set evs"
  shows "setupCamera h s = (Rejected unavailable, s) \<and>
    bindPage_result (reached fmt h (evs @ [Resume])) = Rejected unavailable \<and>
    uncaught (reached fmt h (evs @ [Resume])) = [unavailable] \<and>
    info_display (reached fmt h (evs @ [Resume])) = ''block'' \<and>
    info_textContent (reached fmt h (evs @ [Resume])) = fallback_message \<and>
    main_display (reached fmt h (evs @ [Resume])) = ''block'' \<and>
    map button_innerText (buttons (reached fmt h (evs @ [Resume]))) =
      [''Train 0'', ''Train 1'', ''Train 2''] \<and>
    length (infoTexts (reached fmt h (evs @ [Resume]))) = NUM_CLASSES \<and>
    RequestAnimationFrame \<notin> set (calls (reached fmt h (evs @ [Resume]))) \<and>
    bindPage_at (reached fmt h (evs @ [Resume])) = None"
proof -
  have camera: "setupCamera h t = (Rejected unavailable, t)" for t
    using assms(1) by (auto simp add: setupCamera_def)
  have labels: "map button_innerText (map train_button [0..<NUM_CLASSES]) =
      [''Train 0'', ''Train 1'', ''Train 2'']"
    by code_simp
  have "run fmt h evs (bindPage initial_page) = bindPage initial_page"
    using assms(3) by (intro run_nothing) (simp_all add: bindPage_def loadKNN_def call_def
        initial_page_def)
  then have "reached fmt h (evs @ [Resume]) = resume h (bindPage initial_page)"
    by (simp add: reached_def run_append run_def)
  also have "\<dots> = bindPage_catch unavailable
      (setupFPS (setupGui ((bindPage initial_page)
         \<lparr>model := Some (knn_load NUM_CLASSES TOPK), loading_display := ''none'',
          main_display := ''block''\<rparr>)))"
    using assms(2) by (simp add: resume_def bindPage_model_def camera Let_def bindPage_def)
  finally show ?thesis
    using labels
    by (simp add: camera bindPage_catch_def bindPage_throw_def setupFPS_def call_def
        setupGui_eq bindPage_def loadKNN_def initial_page_def)
qed

theorem camera_unavailable_witness:
  "\<not> mediaDevices no_camera \<and>
   knn_load_result no_camera = Fulfilled () \<and>
   Resume \<notin> set [Mousedown 0, Animation_frame] \<and>
   bindPage_result (reached whole_text no_camera ([Mousedown 0, Animation_frame] @ [Resume])) =
     Rejected unavailable \<and>
   info_display (reached whole_text no_camera ([Mousedown 0, Animation_frame] @ [Resume])) =
     ''block'' \<and>
   map button_innerText
     (buttons (reached whole_text no_camera ([Mousedown 0, Animation_frame] @ [Resume]))) =
      [''Train 0'', ''Train 1'', ''Train 2'']"
proof -
  have h: "\<not> mediaDevices no_camera \<or> \<not> getUserMedia no_camera"
    "knn_load_result no_camera = Fulfilled ()"
    "Resume \<notin> set [Mousedown 0, Animation_frame]"
    by (simp_all add: no_camera_def)
  have none: "\<not> mediaDevices no_camera"
    by (simp add: no_camera_def)
  from camera_unavailable [OF h, of _ whole_text] h(2,3) none show ?thesis
    by blast
qed





text \<open>
  Claim C9. On every page the events lead to, on any host and after any sequence of
  presses, releases, ticks, settled predictions and continuations of \<open>bindPage\<close>,
  \<open>training\<close> is \<open>-1\<close> or a class index in \<open>[0, NUM_CLASSES)\<close>, and every \<open>addImage\<close> call
  made so far had a class index in \<open>[0, NUM_CLASSES)\<close> as its argument.
\<close>

theorem armed_class_valid:
  "(training (reached fmt h evs) = - 1 \<or>
    (0 \<le> training (reached fmt h evs) \<and> training (reached fmt h evs) < int NUM_CLASSES)) \<and>
   (\<forall>img k. AddImage img k \<in> set (calls (reached fmt h evs)) \<longrightarrow>
      0 \<le> k \<and> k < int NUM_CLASSES)"
  using reached_page_ok [of fmt h evs] by (simp add: page_ok_def)

theorem armed_class_valid_witness:
  "training started_armed \<noteq> - 1 \<and>
   AddImage 0 0 \<in> set (calls started_armed) \<and>
   0 \<le> training started_armed \<and>
   training started_armed < int NUM_CLASSES \<and>
   (0::int) < int NUM_CLASSES"
proof -
  have held: "training started_armed \<noteq> - 1"
    and trained: "AddImage 0 0 \<in> set (calls started_armed)"
    by code_simp+
  with armed_class_valid [of whole_text desktop "[Resume, Resume, Mousedown 0, Resume]",
      folded started_armed_def]
  show ?thesis
    by blast
qed

text \<open>
  Claim C10. \<open>setupGui\<close> on the initial page leaves exactly \<open>NUM_CLASSES\<close> status texts.
  On every page the events lead to there are none before the classifier is stored and
  exactly \<open>NUM_CLASSES\<close> from then on (the continuation of \<open>bindPage\<close> that stores the
  classifier runs \<open>setupGui\<close>). A prediction is in flight only on pages of the second
  kind; there every index \<open>0 \<le> i < NUM_CLASSES\<close> that the display update reads is
  defined, and the display update does not throw.
\<close>

theorem infoTexts_in_bounds:
  "length (infoTexts (setupGui initial_page)) = NUM_CLASSES \<and>
   length (infoTexts (reached fmt h evs)) =
     (if model (reached fmt h evs) = None then 0 else NUM_CLASSES) \<and>
   (in_flights (reached fmt h evs) \<noteq> [] \<longrightarrow>
      length (infoTexts (reached fmt h evs)) = NUM_CLASSES \<and>
      (\<forall>i<NUM_CLASSES. js_index (infoTexts (reached fmt h evs)) i \<noteq> None) \<and>
      fst (show_prediction fmt res cnt 0 (infoTexts (reached fmt h evs))) = Inr ())"
proof -
  have "length (infoTexts (setupGui initial_page)) = NUM_CLASSES"
    by (simp add: setupGui_eq initial_page_def)
  moreover have len: "length (infoTexts (reached fmt h evs)) =
      (if model (reached fmt h evs) = None then 0 else NUM_CLASSES)"
    using reached_gui_ok [of fmt h evs] by (simp add: gui_ok_def)
  moreover have "length (infoTexts (reached fmt h evs)) = NUM_CLASSES \<and>
      (\<forall>i<NUM_CLASSES. js_index (infoTexts (reached fmt h evs)) i \<noteq> None) \<and>
      fst (show_prediction fmt res cnt 0 (infoTexts (reached fmt h evs))) = Inr ()"
    if "in_flights (reached fmt h evs) \<noteq> []"
  proof -
    from that reached_gui_ok [of fmt h evs] have "model (reached fmt h evs) \<noteq> None"
      by (auto simp add: gui_ok_def split: if_splits)
    with len have "length (infoTexts (reached fmt h evs)) = NUM_CLASSES"
      by simp
    then show ?thesis
      by (simp add: js_index_def show_prediction_returns)
  qed
  ultimately show ?thesis
    by blast
qed

lemma started_armed_flight: "in_flights started_armed \<noteq> []"
  by code_simp

theorem infoTexts_in_bounds_witness:
  "in_flights started_armed \<noteq> [] \<and>
   length (infoTexts started_armed) = NUM_CLASSES \<and>
   (2::nat) < NUM_CLASSES \<and>
   js_index (infoTexts started_armed) 2 \<noteq> None \<and>
   fst (show_prediction whole_text certain_0 [1, 0, 0] 0 (infoTexts started_armed)) = Inr ()"
proof -
  have two: "(2::nat) < NUM_CLASSES"
    by (simp add: NUM_CLASSES_def)
  from infoTexts_in_bounds [of whole_text desktop "[Resume, Resume, Mousedown 0, Resume]"
      certain_0 "[1, 0, 0]", folded started_armed_def] started_armed_flight two
  show ?thesis
    by blast
qed

section \<open>Every frame is accounted for\<close>

text \<open>
  Over all runs of the page: a tick only ever runs on a page where the loop is running,
  no frame is released twice, and as long as no prediction is rejected every captured
  frame has either been released once or is held by one prediction still in flight.
\<close>

lemma animate_calls_all:
  assumes "video s" "model s = Some m"
  shows "calls (snd (animate s)) = calls s @ new_calls s (snd (animate s))"
  using assms
  by (cases "training s = - 1")
     (simp_all add: animate_defs new_calls_def Let_def greater_than_Math_max)

lemma length_trained:
  "length (getClassExampleCount (trained s m)) = length (getClassExampleCount m)"
  by (simp add: trained_def addImage_def getClassExampleCount_def)

lemma animate_running:
  assumes "running s"
  shows "running (snd (animate s))"
proof -
  from assms obtain m where m: "video s" "model s = Some m"
    "length (getClassExampleCount m) = NUM_CLASSES" "NUM_CLASSES \<le> length (infoTexts s)"
    by (auto simp add: running_def)
  then show ?thesis
    by (simp add: running_def animate_model [OF m(1,2)] animate_keeps length_trained)
qed

lemma animate_accounts:
  assumes "video s" "model s = Some m"
  shows "released (snd (animate s)) f + awaited (snd (animate s)) f =
     released s f + awaited s f + (if f = tensors s then 1 else 0)"
  using animate_calls [OF assms] animate_in_flights [OF assms]
  by (auto simp add: released_def awaited_def animate_calls_all [OF assms])

lemma count_list_without:
  "j < length xs \<Longrightarrow>
   count_list (take j xs @ drop (j + 1) xs) x + (if xs ! j = x then 1 else 0) = count_list xs x"
proof -
  assume "j < length xs"
  then have "xs = take j xs @ xs ! j # drop (j + 1) xs"
    by (simp add: id_take_nth_drop)
  then have "count_list xs x = count_list (take j xs @ xs ! j # drop (j + 1) xs) x"
    by simp
  then show ?thesis
    by simp
qed

lemma settled_accounts:
  assumes "js_index (in_flights s) j = Some p"
  shows "awaited (s\<lparr>in_flights := take j (in_flights s) @ drop (j + 1) (in_flights s)\<rparr>) f +
      (if image p = f then 1 else 0) = awaited s f"
proof -
  from assms have j: "j < length (in_flights s)" and p: "p = in_flights s ! j"
    by (auto simp add: js_index_def split: if_splits)
  from count_list_without [of j "map image (in_flights s)" f] j p show ?thesis
    by (simp add: awaited_def take_map drop_map)
qed

lemma sound_either: "sound s \<Longrightarrow> running s \<or> idle s"
  by (simp add: sound_def)

lemma soundI_running: "running s \<Longrightarrow> sound s"
  by (simp add: sound_def running_def)

lemma frame_running:
  assumes "running s"
  shows "running (s\<lparr>frame_requests := n\<rparr>)" "running (s\<lparr>uncaught := u\<rparr>)"
    "running (s\<lparr>in_flights := fs\<rparr>)"
  using assms by (simp_all add: running_def)

lemma step_frame_running:
  assumes "running s" "0 < frame_requests s"
  shows "step fmt h Animation_frame s =
    snd (animate (s\<lparr>frame_requests := frame_requests s - 1\<rparr>))"
proof -
  from assms(1) obtain m where "video s" "model s = Some m"
    by (auto simp add: running_def)
  then have "fst (animate (s\<lparr>frame_requests := frame_requests s - 1\<rparr>)) = Inr ()"
    by (simp add: animate_returns)
  with assms(2) show ?thesis
    by (simp add: step_frame Let_def del: step.simps)
qed

lemma training_irrelevant:
  "running (s\<lparr>training := v\<rparr>) = running s"
  "idle (s\<lparr>training := v\<rparr>) = idle s"
  "sound (s\<lparr>training := v\<rparr>) = sound s"
  "released (s\<lparr>training := v\<rparr>) f = released s f"
  "awaited (s\<lparr>training := v\<rparr>) f = awaited s f"
  by (simp_all add: sound_def running_def idle_def released_def awaited_def)

lemma predictClass_then_running:
  assumes "running s"
  shows "running (predictClass_then fmt p outcome s)"
proof (cases outcome)
  case (Inl e)
  with assms show ?thesis
    by (simp add: predictClass_then_def running_def)
next
  case (Inr res)
  from assms have "NUM_CLASSES \<le> length (infoTexts s)"
    by (simp add: running_def)
  with assms Inr show ?thesis
    by (simp add: predictClass_then_fulfilled running_def dispose_def call_def
        show_prediction_length)
qed

text \<open>What the continuations of \<open>bindPage\<close> do to the account of a frame.\<close>

lemma sound_same:
  assumes "sound s" "video t = video s" "infoTexts t = infoTexts s" "model t = model s"
    "frame_requests t = frame_requests s" "in_flights t = in_flights s"
    "bindPage_at t = bindPage_at s \<or> bindPage_at t = None \<or>
     (bindPage_at s = Some Await_getUserMedia \<and> bindPage_at t = Some Await_loadedmetadata)"
  shows "sound t"
  using assms by (auto simp add: sound_def running_def idle_def)

lemma bindPage_throw_account:
  assumes "sound s"
  shows "sound (bindPage_throw e s)" "tensors (bindPage_throw e s) = tensors s"
    "released (bindPage_throw e s) f = released s f"
    "awaited (bindPage_throw e s) f = awaited s f"
    "sound (bindPage_catch e s)" "tensors (bindPage_catch e s) = tensors s"
    "released (bindPage_catch e s) f = released s f"
    "awaited (bindPage_catch e s) f = awaited s f"
proof -
  show "sound (bindPage_throw e s)" "sound (bindPage_catch e s)"
    by (rule sound_same [OF assms]; simp add: bindPage_catch_def bindPage_throw_def)+
qed (simp_all add: bindPage_catch_def bindPage_throw_def released_def awaited_def)

lemma setupCamera_stream_account:
  assumes "sound s" "bindPage_at s = Some Await_getUserMedia"
  shows "sound ((setupCamera_stream s)\<lparr>bindPage_at := Some Await_loadedmetadata\<rparr>)"
    "tensors ((setupCamera_stream s)\<lparr>bindPage_at := a\<rparr>) = tensors s"
    "released ((setupCamera_stream s)\<lparr>bindPage_at := a\<rparr>) f = released s f"
    "awaited ((setupCamera_stream s)\<lparr>bindPage_at := a\<rparr>) f = awaited s f"
proof -
  show "sound ((setupCamera_stream s)\<lparr>bindPage_at := Some Await_loadedmetadata\<rparr>)"
    by (rule sound_same [OF assms(1)]; simp add: setupCamera_stream_def assms(2))
qed (simp_all add: setupCamera_stream_def released_def awaited_def)

lemma bindPage_model_account:
  assumes "sound s"
  shows "sound (bindPage_model h (knn_load NUM_CLASSES TOPK) s)"
    "tensors (bindPage_model h (knn_load NUM_CLASSES TOPK) s) = tensors s"
    "released (bindPage_model h (knn_load NUM_CLASSES TOPK) s) f = released s f"
    "awaited (bindPage_model h (knn_load NUM_CLASSES TOPK) s) f = awaited s f"
proof -
  define s3 where "s3 = setupFPS (setupGui
      (s\<lparr>model := Some (knn_load NUM_CLASSES TOPK), loading_display := ''none'',
        main_display := ''block''\<rparr>))"
  have s3: "video s3 = video s" "frame_requests s3 = frame_requests s"
    "in_flights s3 = in_flights s" "tensors s3 = tensors s"
    "NUM_CLASSES \<le> length (infoTexts s3)"
    "\<exists>m. model s3 = Some m \<and> length (getClassExampleCount m) = NUM_CLASSES"
    "released s3 f = released s f" "awaited s3 f = awaited s f"
    by (simp_all add: s3_def setupFPS_def call_def setupGui_eq knn_load_def
        getClassExampleCount_def released_def awaited_def)
  have either: "running t \<or> idle t"
    if "video t = video s" "frame_requests t = frame_requests s" "in_flights t = in_flights s"
      "infoTexts t = infoTexts s3" "model t = model s3" for t
    using that s3(5,6) sound_either [OF assms]
    by (auto simp add: running_def idle_def)
  have "sound (bindPage_model h (knn_load NUM_CLASSES TOPK) s) \<and>
    tensors (bindPage_model h (knn_load NUM_CLASSES TOPK) s) = tensors s \<and>
    released (bindPage_model h (knn_load NUM_CLASSES TOPK) s) f = released s f \<and>
    awaited (bindPage_model h (knn_load NUM_CLASSES TOPK) s) f = awaited s f"
  proof (cases "setupCamera h s3 = (Rejected unavailable, s3)")
    case True
    have "running (bindPage_catch unavailable s3) \<or> idle (bindPage_catch unavailable s3)"
      by (rule either) (simp_all add: bindPage_catch_def bindPage_throw_def s3)
    then have "sound (bindPage_catch unavailable s3)"
      by (simp add: sound_def bindPage_catch_def bindPage_throw_def)
    with True s3 show ?thesis
      by (simp add: bindPage_model_def s3_def [symmetric] bindPage_catch_def
          bindPage_throw_def released_def awaited_def)
  next
    case False
    with setupCamera_cases [of h s3] obtain s'
      where s': "setupCamera h s3 = (Pending, s')" "model s' = model s3"
        "infoTexts s' = infoTexts s3" "in_flights s' = in_flights s3"
        "frame_requests s' = frame_requests s3" "tensors s' = tensors s3" "video s' = video s3"
        "\<forall>f. count_list (calls s') (Dispose f) = count_list (calls s3) (Dispose f)"
      by auto
    have "running (s'\<lparr>bindPage_at := Some Await_getUserMedia\<rparr>) \<or>
        idle (s'\<lparr>bindPage_at := Some Await_getUserMedia\<rparr>)"
      by (rule either) (simp_all add: s' s3)
    then have "sound (s'\<lparr>bindPage_at := Some Await_getUserMedia\<rparr>)"
      using s3(5,6) by (simp add: sound_def s')
    with s' s3 show ?thesis
      by (simp add: bindPage_model_def s3_def [symmetric] released_def awaited_def)
  qed
  then show "sound (bindPage_model h (knn_load NUM_CLASSES TOPK) s)"
    "tensors (bindPage_model h (knn_load NUM_CLASSES TOPK) s) = tensors s"
    "released (bindPage_model h (knn_load NUM_CLASSES TOPK) s) f = released s f"
    "awaited (bindPage_model h (knn_load NUM_CLASSES TOPK) s) f = awaited s f"
    by simp_all
qed

lemma bindPage_camera_account:
  assumes "NUM_CLASSES \<le> length (infoTexts s)"
    "\<exists>m. model s = Some m \<and> length (getClassExampleCount m) = NUM_CLASSES"
  shows "running (bindPage_camera s)" "tensors (bindPage_camera s) = tensors s + 1"
    "released (bindPage_camera s) f + awaited (bindPage_camera s) f =
       released s f + awaited s f + (if f = tensors s then 1 else 0)"
proof -
  define s5 where "s5 = s\<lparr>video := True, video_dom := (video_dom s)\<lparr>playing := True\<rparr>\<rparr>"
  have run: "running s5"
    using assms by (simp add: s5_def running_def)
  then obtain m where m: "video s5" "model s5 = Some m"
    by (auto simp add: running_def)
  have same: "released s5 f = released s f" "awaited s5 f = awaited s f" "tensors s5 = tensors s"
    by (simp_all add: s5_def released_def awaited_def)
  have "fst (animate s5) = Inr ()"
    using m by (rule animate_returns)
  then have after: "bindPage_camera s =
      (snd (animate s5))\<lparr>bindPage_at := None, bindPage_result := Fulfilled ()\<rparr>"
    by (cases "animate s5") (simp add: bindPage_camera_def s5_def [symmetric])
  have "running (snd (animate s5))"
    using run by (rule animate_running)
  then show "running (bindPage_camera s)"
    by (simp add: after running_def)
  show "tensors (bindPage_camera s) = tensors s + 1"
    using animate_tensors [OF m] by (simp add: after same)
  have "released (bindPage_camera s) f = released (snd (animate s5)) f"
    "awaited (bindPage_camera s) f = awaited (snd (animate s5)) f"
    by (simp_all add: after released_def awaited_def)
  then show "released (bindPage_camera s) f + awaited (bindPage_camera s) f =
       released s f + awaited s f + (if f = tensors s then 1 else 0)"
    using animate_accounts [OF m, of f] by (simp add: same)
qed

text \<open>What one event does to the account of a frame.\<close>

lemma step_account:
  assumes sound: "sound s"
  shows "sound (step fmt h ev s) \<and> tensors s \<le> tensors (step fmt h ev s) \<and>
    (\<forall>f. released (step fmt h ev s) f + awaited (step fmt h ev s) f +
         (if rejected_frame ev s = Some f then 1 else 0) =
       released s f + awaited s f +
         (if tensors s \<le> f \<and> f < tensors (step fmt h ev s) then 1 else 0))"
proof (cases ev)
  case (Mousedown b)
  show ?thesis
  proof (cases "js_index (buttons s) b")
    case None
    with Mousedown sound show ?thesis by simp
  next
    case (Some btn)
    obtain v where "dispatch (mousedown btn) s = s\<lparr>training := v\<rparr>"
      using dispatch_only_training by blast
    with Mousedown Some sound show ?thesis
      by (simp add: training_irrelevant)
  qed
next
  case (Mouseup b)
  show ?thesis
  proof (cases "js_index (buttons s) b")
    case None
    with Mouseup sound show ?thesis by simp
  next
    case (Some btn)
    obtain v where "dispatch (mouseup btn) s = s\<lparr>training := v\<rparr>"
      using dispatch_only_training by blast
    with Mouseup Some sound show ?thesis
      by (simp add: training_irrelevant)
  qed
next
  case Animation_frame
  show ?thesis
  proof (cases "0 < frame_requests s")
    case False
    with Animation_frame sound show ?thesis by simp
  next
    case True
    with sound_either [OF sound] have run: "running s"
      by (auto simp add: idle_def)
    define t where "t = s\<lparr>frame_requests := frame_requests s - 1\<rparr>"
    have step: "step fmt h ev s = snd (animate t)"
      using step_frame_running [OF run True] Animation_frame by (simp add: t_def del: step.simps)
    have none: "rejected_frame ev s = None"
      using Animation_frame by simp
    have t: "running t"
      unfolding t_def using run by (rule frame_running)
    then obtain m where m: "video t" "model t = Some m"
      by (auto simp add: running_def)
    have same: "released t f = released s f" "awaited t f = awaited s f" "tensors t = tensors s"
      for f
      by (simp_all add: t_def released_def awaited_def)
    have new: "released (snd (animate t)) f + awaited (snd (animate t)) f =
        released s f + awaited s f + (if f = tensors s then 1 else 0)" for f
      using animate_accounts [OF m, of f] by (simp add: same)
    have more: "tensors (snd (animate t)) = tensors s + 1"
      using animate_tensors [OF m] by (simp add: same)
    have "sound (snd (animate t))"
      using t by (intro soundI_running animate_running)
    then show ?thesis
      unfolding step none by (auto simp add: new more)
  qed
next
  case (Settled j outcome)
  show ?thesis
  proof (cases "js_index (in_flights s) j")
    case None
    then have "rejected_frame ev s = None"
      using Settled by (cases outcome) simp_all
    with None Settled sound show ?thesis by simp
  next
    case (Some p)
    then have "in_flights s \<noteq> []"
      by (auto simp add: js_index_def split: if_splits)
    with sound_either [OF sound] have run: "running s"
      by (auto simp add: idle_def)
    define t where "t = s\<lparr>in_flights := take j (in_flights s) @ drop (j + 1) (in_flights s)\<rparr>"
    have t: "running t"
      unfolding t_def using run by (rule frame_running)
    then have texts: "NUM_CLASSES \<le> length (infoTexts t)"
      by (simp add: running_def)
    have step: "step fmt h ev s = predictClass_then fmt p outcome t"
      using Settled Some by (simp add: t_def)
    have gone: "awaited t f + (if image p = f then 1 else 0) = awaited s f" for f
      unfolding t_def using Some by (rule settled_accounts)
    have kept: "released t f = released s f" "tensors t = tensors s" for f
      by (simp_all add: t_def released_def)
    show ?thesis
    proof (cases outcome)
      case (Inl e)
      then have lost: "rejected_frame ev s = Some (image p)"
        using Settled Some by simp
      have after: "step fmt h ev s = t\<lparr>uncaught := uncaught t @ [e]\<rparr>"
        using step Inl by (simp add: predictClass_then_def)
      have parts: "released (step fmt h ev s) f = released s f"
        "awaited (step fmt h ev s) f = awaited t f" "tensors (step fmt h ev s) = tensors s" for f
        unfolding after
        by (simp_all add: released_def awaited_def kept [unfolded released_def])
      have "released (step fmt h ev s) f + awaited (step fmt h ev s) f +
          (if Some (image p) = Some f then 1 else 0) = released s f + awaited s f" for f
        using gone [of f] by (simp add: parts)
      moreover have "sound (step fmt h ev s)"
        unfolding step using t by (intro soundI_running predictClass_then_running)
      ultimately show ?thesis
        unfolding lost by (simp add: parts)
    next
      case (Inr res)
      then have none: "rejected_frame ev s = None"
        using Settled by simp
      have after: "step fmt h ev s = dispose (image p)
          (t\<lparr>infoTexts := snd (show_prediction fmt res (exampleCount p) 0 (infoTexts t))\<rparr>)"
        using step Inr predictClass_then_fulfilled [OF texts] by simp
      have parts: "released (step fmt h ev s) f = released s f + (if image p = f then 1 else 0)"
        "awaited (step fmt h ev s) f = awaited t f" "tensors (step fmt h ev s) = tensors s" for f
        unfolding after
        by (auto simp add: released_def awaited_def dispose_def call_def
            kept [unfolded released_def])
      have "released (step fmt h ev s) f + awaited (step fmt h ev s) f =
          released s f + awaited s f" for f
        using gone [of f] by (simp add: parts(1,2))
      moreover have "sound (step fmt h ev s)"
        unfolding step using t by (intro soundI_running predictClass_then_running)
      ultimately show ?thesis
        unfolding none by (simp add: parts(3))
    qed
  qed
next
  case Resume
  have none: "rejected_frame ev s = None"
    using Resume by simp
  have same: "sound (resume h s) \<and> tensors (resume h s) = tensors s \<and>
      (\<forall>f. released (resume h s) f = released s f \<and> awaited (resume h s) f = awaited s f)"
    if "\<not> (bindPage_at s = Some Await_loadedmetadata \<and> loadedmetadata h)"
    using that sound
    by (auto simp add: resume_def bindPage_model_account bindPage_throw_account
        setupCamera_stream_account split: option.splits await.splits settled.splits)
  show ?thesis
  proof (cases "bindPage_at s = Some Await_loadedmetadata \<and> loadedmetadata h")
    case False
    from same [OF this] show ?thesis
      unfolding none using Resume by simp
  next
    case True
    with sound have "NUM_CLASSES \<le> length (infoTexts s)"
      "\<exists>m. model s = Some m \<and> length (getClassExampleCount m) = NUM_CLASSES"
      by (simp_all add: sound_def)
    from bindPage_camera_account [OF this]
    have "sound (bindPage_camera s)" "tensors (bindPage_camera s) = tensors s + 1"
      "\<And>f. released (bindPage_camera s) f + awaited (bindPage_camera s) f =
        released s f + awaited s f + (if f = tensors s then 1 else 0)"
      by (simp_all add: soundI_running)
    moreover have "step fmt h ev s = bindPage_camera s"
      using Resume True by (simp add: resume_def)
    ultimately show ?thesis
      unfolding none by auto
  qed
qed

lemma rejected_frame_None: "\<not> is_rejection ev \<Longrightarrow> rejected_frame ev s = None"
  by (cases "(ev, s)" rule: rejected_frame.cases) simp_all

lemma run_account:
  assumes "sound s"
    "\<forall>f. released s f + awaited s f \<le> (if f < tensors s then 1 else 0)"
  shows "sound (run fmt h evs s) \<and>
    (\<forall>f. released (run fmt h evs s) f + awaited (run fmt h evs s) f \<le>
       (if f < tensors (run fmt h evs s) then 1 else 0))"
  using assms
proof (induction evs arbitrary: s)
  case Nil
  then show ?case by (simp add: run_def)
next
  case (Cons ev evs)
  from step_account [OF Cons.prems(1), of fmt h ev]
  have state: "sound (step fmt h ev s)"
    and more: "tensors s \<le> tensors (step fmt h ev s)"
    and account: "\<And>f. released (step fmt h ev s) f + awaited (step fmt h ev s) f +
         (if rejected_frame ev s = Some f then 1 else 0) =
       released s f + awaited s f +
         (if tensors s \<le> f \<and> f < tensors (step fmt h ev s) then 1 else 0)"
    by blast+
  have "released (step fmt h ev s) f + awaited (step fmt h ev s) f \<le>
      (if f < tensors (step fmt h ev s) then 1 else 0)" for f
    using account [of f] Cons.prems(2) [rule_format, of f] more
    by (auto split: if_splits)
  with Cons.IH [OF state] show ?case
    by (simp add: run_Cons)
qed

lemma run_account_all:
  assumes "sound s"
    "\<forall>f. released s f + awaited s f = (if f < tensors s then 1 else 0)"
    "\<forall>ev\<in>set evs. \<not> is_rejection ev"
  shows "\<forall>f. released (run fmt h evs s) f + awaited (run fmt h evs s) f =
       (if f < tensors (run fmt h evs s) then 1 else 0)"
  using assms
proof (induction evs arbitrary: s)
  case Nil
  then show ?case by (simp add: run_def)
next
  case (Cons ev evs)
  from Cons.prems(3) have none: "rejected_frame ev s = None"
    by (simp add: rejected_frame_None)
  from step_account [OF Cons.prems(1), of fmt h ev]
  have state: "sound (step fmt h ev s)"
    and more: "tensors s \<le> tensors (step fmt h ev s)"
    and account: "\<And>f. released (step fmt h ev s) f + awaited (step fmt h ev s) f =
       released s f + awaited s f +
         (if tensors s \<le> f \<and> f < tensors (step fmt h ev s) then 1 else 0)"
    by (simp_all add: none)
  have "released (step fmt h ev s) f + awaited (step fmt h ev s) f =
      (if f < tensors (step fmt h ev s) then 1 else 0)" for f
    using account [of f] Cons.prems(2) [rule_format, of f] more
    by (auto split: if_splits)
  with Cons.IH [OF state] Cons.prems(3) show ?case
    by (simp add: run_Cons)
qed

lemma reached_account:
  "sound (reached fmt h evs) \<and>
   (\<forall>f. released (reached fmt h evs) f + awaited (reached fmt h evs) f \<le>
      (if f < tensors (reached fmt h evs) then 1 else 0))"
proof -
  have "sound (bindPage initial_page)"
    "\<forall>f. released (bindPage initial_page) f + awaited (bindPage initial_page) f \<le>
      (if f < tensors (bindPage initial_page) then 1 else 0)"
    by (simp_all add: sound_def idle_def released_def awaited_def bindPage_def loadKNN_def
        call_def initial_page_def)
  from run_account [OF this] show ?thesis
    by (simp add: reached_def)
qed

lemma tick_runs_on_running_page:
  "0 < frame_requests (reached fmt h evs) \<Longrightarrow> running (reached fmt h evs)"
  using reached_account [of fmt h evs] by (auto simp add: sound_def idle_def)

lemma prediction_settles_on_running_page:
  "in_flights (reached fmt h evs) \<noteq> [] \<Longrightarrow> running (reached fmt h evs)"
  using reached_account [of fmt h evs] by (auto simp add: sound_def idle_def)

lemma frame_never_released_twice:
  "released (reached fmt h evs) f + awaited (reached fmt h evs) f \<le> 1"
proof -
  have "released (reached fmt h evs) f + awaited (reached fmt h evs) f \<le>
      (if f < tensors (reached fmt h evs) then 1 else 0)"
    using reached_account [of fmt h evs] by simp
  then show ?thesis
    by (simp split: if_splits)
qed

lemma every_frame_released_or_awaited:
  assumes "\<forall>ev\<in>set evs. \<not> is_rejection ev" "f < tensors (reached fmt h evs)"
  shows "released (reached fmt h evs) f + awaited (reached fmt h evs) f = 1"
proof -
  have "sound (bindPage initial_page)"
    "\<forall>f. released (bindPage initial_page) f + awaited (bindPage initial_page) f =
      (if f < tensors (bindPage initial_page) then 1 else 0)"
    by (simp_all add: sound_def idle_def released_def awaited_def bindPage_def loadKNN_def
        call_def initial_page_def)
  from run_account_all [OF this assms(1), of fmt h] assms(2) show ?thesis
    by (simp add: reached_def)
qed

end
